theory Spec2Isabelle
  imports Main "HOL-Library.Word"
begin

section \<open>Data model of SafeOps.c\<close>

text \<open>
  The embedding follows \<^verbatim>\<open>SafeOps.c\<close> function by function. A call either has a defined
  result (\<open>Some\<close>) or runs into behaviour the C standard leaves undefined (\<open>None\<close>): a read
  or write outside the object a pointer refers to, \<^verbatim>\<open>strlen\<close> on an object without a
  terminator, \<^verbatim>\<open>free\<close> of a block that is not live. A pointer argument is an option, with
  \<open>None\<close> for \<^verbatim>\<open>NULL\<close>; a character buffer is the list of all bytes of the object behind the
  pointer, which may be longer or shorter than the capacity the caller passes along.
  \<^verbatim>\<open>size_t\<close> is a 64-bit word, \<^verbatim>\<open>int\<close> a 32-bit word, \<^verbatim>\<open>long long\<close> a 64-bit word.
\<close>

datatype SafeOpsError =
    SAFEOPS_OK
  | SAFEOPS_ERR_NULL_POINTER
  | SAFEOPS_ERR_OUT_OF_BOUNDS
  | SAFEOPS_ERR_OVERFLOW
  | SAFEOPS_ERR_INVALID_PARAM
  | SAFEOPS_ERR_ALLOCATION_FAILED
  | SAFEOPS_ERR_FILE_ACCESS
  | SAFEOPS_ERR_OVERLAP
  | SAFEOPS_ERR_UNKNOWN

text \<open>The values the library itself assigns to \<^verbatim>\<open>errno\<close>; \<open>E_OTHER\<close> is any other value.\<close>

datatype errno_t = E_OTHER | EINVAL | EOVERFLOW

type_synonym size_t = "64 word"
type_synonym c_int = "32 word"
type_synonym c_llong = "64 word"

abbreviation NUL :: char where
  "NUL \<equiv> CHR 0x00"

definition SIZE_MAX :: size_t where
  "SIZE_MAX = - 1"

text \<open>
  The state a call can read and change: the two file-scope variables of \<^verbatim>\<open>SafeOps.c\<close>
  (\<open>g_logger\<close> holds whether a callback is installed, and \<open>logged\<close> records the calls made to
  it), \<^verbatim>\<open>errno\<close>, the allocator's live blocks (address and size) with the number of bytes
  it can hand out in total, and the table of open file descriptors.
\<close>

record state =
  g_logger :: bool
  g_lastError :: SafeOpsError
  logged :: "(SafeOpsError \<times> string) list"
  errno :: errno_t
  heap :: "(nat \<times> nat) list"
  heap_limit :: nat
  open_fds :: "nat list"

section \<open>Diagnostics\<close>

definition SetError :: "SafeOpsError \<Rightarrow> string \<Rightarrow> state \<Rightarrow> state" where
  "SetError error message st =
     (let st1 = st\<lparr>g_lastError := error\<rparr>
      in if g_logger st1 then st1\<lparr>logged := logged st1 @ [(error, message)]\<rparr> else st1)"

definition SafeOpsSetLogger :: "bool \<Rightarrow> state \<Rightarrow> state" where
  "SafeOpsSetLogger logger st = st\<lparr>g_logger := logger\<rparr>"

definition SafeOpsGetLastError :: "state \<Rightarrow> SafeOpsError" where
  "SafeOpsGetLastError st = g_lastError st"

section \<open>Allocation\<close>

text \<open>
  The C library's allocator. A request is refused when the live blocks and the request
  together exceed \<open>heap_limit\<close>; a granted block gets an address above every live one.
  \<^verbatim>\<open>free\<close> of an address that is not live is undefined.
\<close>

definition heap_used :: "state \<Rightarrow> nat" where
  "heap_used st = sum_list (map snd (heap st))"

definition fresh_addr :: "state \<Rightarrow> nat" where
  "fresh_addr st = Suc (fold max (map fst (heap st)) 0)"

definition c_malloc :: "nat \<Rightarrow> state \<Rightarrow> nat option \<times> state" where
  "c_malloc n st =
     (if heap_used st + n \<le> heap_limit st
      then (Some (fresh_addr st), st\<lparr>heap := (fresh_addr st, n) # heap st\<rparr>)
      else (None, st))"

definition c_free :: "nat \<Rightarrow> state \<Rightarrow> state option" where
  "c_free p st =
     (if p \<in> fst ` set (heap st)
      then Some (st\<lparr>heap := filter (\<lambda>b. fst b \<noteq> p) (heap st)\<rparr>)
      else None)"

text \<open>\<^verbatim>\<open>memset(p, 0, n)\<close> on a heap block: defined when the block is live and has \<open>n\<close> bytes.\<close>

definition c_memset_block :: "nat \<Rightarrow> nat \<Rightarrow> state \<Rightarrow> state option" where
  "c_memset_block p n st =
     (case map_of (heap st) p of
        None \<Rightarrow> None
      | Some sz \<Rightarrow> if n \<le> sz then Some st else None)"

definition SafeMalloc :: "size_t \<Rightarrow> state \<Rightarrow> nat option \<times> state" where
  "SafeMalloc sz st =
     (if sz = 0 then
        (None, SetError SAFEOPS_ERR_INVALID_PARAM ''Zero size allocation requested'' st)
      else if sz > SIZE_MAX - 8 then
        (None, SetError SAFEOPS_ERR_OVERFLOW ''Allocation size would overflow'' st)
      else
        (case c_malloc (unat sz) st of
           (None, st1) \<Rightarrow>
             (None, SetError SAFEOPS_ERR_ALLOCATION_FAILED ''Memory allocation failed'' st1)
         | (Some ptr, st1) \<Rightarrow> (Some ptr, st1)))"

definition SafeMallocUninitialized :: "size_t \<Rightarrow> state \<Rightarrow> nat option \<times> state" where
  "SafeMallocUninitialized sz st =
     (if sz = 0 then
        (None, SetError SAFEOPS_ERR_INVALID_PARAM ''Zero size allocation requested'' st)
      else if sz > SIZE_MAX - 8 then
        (None, SetError SAFEOPS_ERR_OVERFLOW ''Allocation size would overflow'' st)
      else
        (case c_malloc (unat sz) st of
           (None, st1) \<Rightarrow>
             (None, SetError SAFEOPS_ERR_ALLOCATION_FAILED ''Memory allocation failed'' st1)
         | (Some ptr, st1) \<Rightarrow> (Some ptr, st1)))"

text \<open>
  \<^verbatim>\<open>void SafeFree(void **ptrRef)\<close>. The argument is \<open>None\<close> when \<open>ptrRef\<close> is \<^verbatim>\<open>NULL\<close> and
  otherwise holds the pointer stored at \<open>*ptrRef\<close>; the result is the pointer stored there
  after the call, with the new state.
\<close>

definition SafeFree :: "nat option option \<Rightarrow> state \<Rightarrow> (nat option option \<times> state) option" where
  "SafeFree ptrRef st =
     (case ptrRef of
        None \<Rightarrow> Some (ptrRef, st)
      | Some None \<Rightarrow> Some (ptrRef, st)
      | Some (Some p) \<Rightarrow>
          (case c_free p st of
             None \<Rightarrow> None
           | Some st1 \<Rightarrow> Some (Some None, st1)))"

definition SafeFreeTyped ::
  "nat option option \<Rightarrow> size_t \<Rightarrow> state \<Rightarrow> (bool \<times> nat option option \<times> state) option" where
  "SafeFreeTyped ptrRef sz st =
     (case ptrRef of
        None \<Rightarrow> Some (False, ptrRef, st\<lparr>errno := EINVAL\<rparr>)
      | Some None \<Rightarrow> Some (False, ptrRef, st\<lparr>errno := EINVAL\<rparr>)
      | Some (Some p) \<Rightarrow>
          (case c_memset_block p (unat sz) st of
             None \<Rightarrow> None
           | Some st1 \<Rightarrow>
               (case c_free p st1 of
                  None \<Rightarrow> None
                | Some st2 \<Rightarrow> Some (True, Some None, st2))))"

section \<open>C library primitives on buffers\<close>

text \<open>
  \<open>read_at\<close> and \<open>write_at\<close> are the accesses \<^verbatim>\<open>memcpy\<close> and its relatives make: \<open>n\<close>
  elements read from, or a list of elements written to, an object starting at offset
  \<open>off\<close>. Leaving the object is undefined.
\<close>

definition read_at :: "'a list \<Rightarrow> nat \<Rightarrow> nat \<Rightarrow> 'a list option" where
  "read_at buf off n = (if off + n \<le> length buf then Some (take n (drop off buf)) else None)"

definition write_at :: "'a list \<Rightarrow> nat \<Rightarrow> 'a list \<Rightarrow> 'a list option" where
  "write_at buf off xs =
     (if off + length xs \<le> length buf
      then Some (take off buf @ xs @ drop (off + length xs) buf)
      else None)"

text \<open>The string held in a buffer: the elements before the first terminator \<open>z\<close>.\<close>

definition str_of :: "'a \<Rightarrow> 'a list \<Rightarrow> 'a list" where
  "str_of z buf = takeWhile (\<lambda>c. c \<noteq> z) buf"

abbreviation c_str :: "char list \<Rightarrow> char list" where
  "c_str buf \<equiv> str_of NUL buf"

text \<open>\<^verbatim>\<open>strlen\<close>: undefined on an object that holds no terminator.\<close>

definition c_strlen :: "char list \<Rightarrow> nat option" where
  "c_strlen buf = (if NUL \<in> set buf then Some (length (c_str buf)) else None)"

text \<open>
  \<^verbatim>\<open>strstr\<close> on the contents of two strings: the offset of the first occurrence of the
  needle, \<open>None\<close> for the \<^verbatim>\<open>NULL\<close> result. An empty needle is found at offset 0.
\<close>

fun c_strstr :: "char list \<Rightarrow> char list \<Rightarrow> nat option" where
  "c_strstr [] needle = (if needle = [] then Some 0 else None)"
| "c_strstr (c # cs) needle =
     (if take (length needle) (c # cs) = needle then Some 0
      else map_option Suc (c_strstr cs needle))"

text \<open>
  \<^verbatim>\<open>strncpy\<close> and \<^verbatim>\<open>wcsncpy\<close>: exactly \<open>n\<close> elements are written to the start of \<open>dest\<close>,
  the string of \<open>src\<close> cut at \<open>n\<close> and padded with terminators.
\<close>

definition c_strncpy :: "'a \<Rightarrow> 'a list \<Rightarrow> 'a list \<Rightarrow> nat \<Rightarrow> 'a list option" where
  "c_strncpy z dest src n =
     (if z \<in> set src \<or> n \<le> length src
      then write_at dest 0 (take n (str_of z src) @ replicate (n - length (str_of z src)) z)
      else None)"

text \<open>
  \<^verbatim>\<open>wcsncat\<close>: at most \<open>n\<close> elements of the string of \<open>src\<close> and a terminator are written
  after the string of \<open>dest\<close>.
\<close>

definition c_strncat :: "'a \<Rightarrow> 'a list \<Rightarrow> 'a list \<Rightarrow> nat \<Rightarrow> 'a list option" where
  "c_strncat z dest src n =
     (if z \<in> set dest \<and> (z \<in> set src \<or> n \<le> length src)
      then write_at dest (length (str_of z dest)) (take n (str_of z src) @ [z])
      else None)"

text \<open>\<^verbatim>\<open>memmove\<close> inside one memory: the source bytes are read before any is written.\<close>

definition c_memmove :: "'a list \<Rightarrow> nat \<Rightarrow> nat \<Rightarrow> nat \<Rightarrow> 'a list option" where
  "c_memmove mem dest src n =
     (case read_at mem src n of
        None \<Rightarrow> None
      | Some bytes \<Rightarrow> write_at mem dest bytes)"

section \<open>Safe copy and move\<close>

text \<open>
  \<open>SafeMemCopy\<close> compares its two pointers and moves bytes between regions that may
  overlap, so both are offsets into one memory \<open>mem\<close>, which the call returns updated.
\<close>

definition SafeMemCopy ::
  "char list \<Rightarrow> nat option \<Rightarrow> size_t \<Rightarrow> nat option \<Rightarrow> size_t \<Rightarrow> state
     \<Rightarrow> (bool \<times> char list \<times> state) option" where
  "SafeMemCopy mem dest destSize src srcSize st =
     (if dest = None \<or> src = None then
        Some (False, mem, SetError SAFEOPS_ERR_NULL_POINTER ''NULL pointer in SafeMemCopy'' st)
      else if srcSize > destSize then
        Some (False, mem,
              SetError SAFEOPS_ERR_OUT_OF_BOUNDS ''Source size exceeds destination buffer'' st)
      else
        (let d = the dest; s = the src;
             st1 = (if (s < d \<and> s + unat srcSize > d) \<or> (d < s \<and> d + unat destSize > s)
                    then (if g_logger st
                          then st\<lparr>logged := logged st @
                                  [(SAFEOPS_OK, ''Memory regions overlap, using memmove'')]\<rparr>
                          else st)
                    else st)
         in case c_memmove mem d s (unat srcSize) of
              None \<Rightarrow> None
            | Some mem1 \<Rightarrow> Some (True, mem1, st1)))"

text \<open>
  The loop of \<open>SafeStrLen\<close> and \<open>SafeWStrLen\<close>:
  \<^verbatim>\<open>while (len < maxLen && str[len] != '\0') len++;\<close>
\<close>

function scan_len :: "'a \<Rightarrow> 'a list \<Rightarrow> nat \<Rightarrow> nat \<Rightarrow> nat option" where
  "scan_len z str maxLen len =
     (if len < maxLen then
        (if len < length str then
           (if str ! len \<noteq> z then scan_len z str maxLen (len + 1) else Some len)
         else None)
      else Some len)"
  by pat_completeness auto
termination
  by (relation "measure (\<lambda>(z, str, maxLen, len). maxLen - len)") auto

declare scan_len.simps [simp del]

text \<open>
  A function with an out-parameter returns \<open>Some v\<close> when it returns \<^verbatim>\<open>true\<close> after storing
  \<open>v\<close>, and \<open>None\<close> when it returns \<^verbatim>\<open>false\<close>; the flag \<open>outLen\<close> says whether the pointer
  passed for the out-parameter is non-null.
\<close>

definition bounded_len ::
  "'a \<Rightarrow> string \<Rightarrow> 'a list option \<Rightarrow> size_t \<Rightarrow> bool \<Rightarrow> state
     \<Rightarrow> (size_t option \<times> state) option" where
  "bounded_len z fname str maxLen outLen st =
     (if str = None \<or> \<not> outLen then
        Some (None, SetError SAFEOPS_ERR_NULL_POINTER (''NULL pointer in '' @ fname) st)
      else
        (case scan_len z (the str) (unat maxLen) 0 of
           None \<Rightarrow> None
         | Some len \<Rightarrow>
             if len = unat maxLen then
               (if len < length (the str) then
                  (if the str ! len \<noteq> z then
                     Some (None,
                           SetError SAFEOPS_ERR_OUT_OF_BOUNDS ''String exceeds maximum length'' st)
                   else Some (Some (of_nat len), st))
                else None)
             else Some (Some (of_nat len), st)))"

definition SafeStrLen ::
  "char list option \<Rightarrow> size_t \<Rightarrow> bool \<Rightarrow> state \<Rightarrow> (size_t option \<times> state) option" where
  "SafeStrLen str maxLen outLen st = bounded_len NUL ''SafeStrLen'' str maxLen outLen st"

type_synonym wchar_t = "32 word"

definition SafeWStrLen ::
  "wchar_t list option \<Rightarrow> size_t \<Rightarrow> bool \<Rightarrow> state \<Rightarrow> (size_t option \<times> state) option" where
  "SafeWStrLen str maxLen outLen st = bounded_len 0 ''SafeWStrLen'' str maxLen outLen st"

text \<open>
  Functions that write to a caller's buffer return the \<^verbatim>\<open>bool\<close> result, the buffer after
  the call and the state.
\<close>

definition SafeStrCat ::
  "char list option \<Rightarrow> size_t \<Rightarrow> char list option \<Rightarrow> state
     \<Rightarrow> (bool \<times> char list option \<times> state) option" where
  "SafeStrCat dest destSize src st =
     (if dest = None \<or> src = None then
        Some (False, dest, SetError SAFEOPS_ERR_NULL_POINTER ''NULL pointer in SafeStrCat'' st)
      else
        (case SafeStrLen dest destSize True st of
           None \<Rightarrow> None
         | Some (None, st1) \<Rightarrow> Some (False, dest, st1)
         | Some (Some destLen, st1) \<Rightarrow>
             (case SafeStrLen src SIZE_MAX True st1 of
                None \<Rightarrow> None
              | Some (None, st2) \<Rightarrow> Some (False, dest, st2)
              | Some (Some srcLen, st2) \<Rightarrow>
                  if destLen + srcLen \<ge> destSize then
                    Some (False, dest,
                          SetError SAFEOPS_ERR_OUT_OF_BOUNDS
                            ''Concatenation would overflow buffer'' st2)
                  else
                    (case read_at (the src) 0 (unat (srcLen + 1)) of
                       None \<Rightarrow> None
                     | Some bytes \<Rightarrow>
                         (case write_at (the dest) (unat destLen) bytes of
                            None \<Rightarrow> None
                          | Some d1 \<Rightarrow> Some (True, Some d1, st2))))))"

definition SafeStrCopy ::
  "char list option \<Rightarrow> size_t \<Rightarrow> char list option \<Rightarrow> state
     \<Rightarrow> (bool \<times> char list option \<times> state) option" where
  "SafeStrCopy dest destSize src st =
     (if \<not> (dest \<noteq> None \<and> src \<noteq> None \<and> destSize > 0) then
        Some (False, dest, st\<lparr>errno := EINVAL\<rparr>)
      else
        (case c_strlen (the src) of
           None \<Rightarrow> None
         | Some srcLen \<Rightarrow>
             if srcLen \<ge> unat destSize then Some (False, dest, st\<lparr>errno := EOVERFLOW\<rparr>)
             else
               (case c_strncpy NUL (the dest) (the src) (unat (destSize - 1)) of
                  None \<Rightarrow> None
                | Some d1 \<Rightarrow>
                    (case write_at d1 (unat (destSize - 1)) [NUL] of
                       None \<Rightarrow> None
                     | Some d2 \<Rightarrow> Some (True, Some d2, st)))))"

definition SafeWStrNCopy ::
  "wchar_t list option \<Rightarrow> size_t \<Rightarrow> wchar_t list option \<Rightarrow> size_t \<Rightarrow> state
     \<Rightarrow> (bool \<times> wchar_t list option \<times> state) option" where
  "SafeWStrNCopy dest destSize src count st =
     (if dest = None \<or> src = None then
        Some (False, dest, SetError SAFEOPS_ERR_NULL_POINTER ''NULL pointer in SafeWStrNCopy'' st)
      else if destSize = 0 then
        Some (False, dest, SetError SAFEOPS_ERR_INVALID_PARAM ''Destination size is 0'' st)
      else
        (case SafeWStrLen src count True st of
           None \<Rightarrow> None
         | Some (None, st1) \<Rightarrow> Some (False, dest, st1)
         | Some (Some srcLen, st1) \<Rightarrow>
             (let copyLen = (if srcLen < count then srcLen else count)
              in if copyLen \<ge> destSize then
                   Some (False, dest,
                         SetError SAFEOPS_ERR_OUT_OF_BOUNDS
                           ''Insufficient destination buffer size'' st1)
                 else
                   (case c_strncpy 0 (the dest) (the src) (unat copyLen) of
                      None \<Rightarrow> None
                    | Some d1 \<Rightarrow>
                        (case write_at d1 (unat copyLen) [0] of
                           None \<Rightarrow> None
                         | Some d2 \<Rightarrow> Some (True, Some d2, st1))))))"

definition SafeWStrNCat ::
  "wchar_t list option \<Rightarrow> size_t \<Rightarrow> wchar_t list option \<Rightarrow> size_t \<Rightarrow> state
     \<Rightarrow> (bool \<times> wchar_t list option \<times> state) option" where
  "SafeWStrNCat dest destSize src count st =
     (if dest = None \<or> src = None then
        Some (False, dest, SetError SAFEOPS_ERR_NULL_POINTER ''NULL pointer in SafeWStrNCat'' st)
      else
        (case SafeWStrLen dest destSize True st of
           None \<Rightarrow> None
         | Some (None, st1) \<Rightarrow> Some (False, dest, st1)
         | Some (Some destLen, st1) \<Rightarrow>
             (case SafeWStrLen src count True st1 of
                None \<Rightarrow> None
              | Some (None, st2) \<Rightarrow> Some (False, dest, st2)
              | Some (Some srcLen, st2) \<Rightarrow>
                  (let copyLen = (if srcLen < count then srcLen else count)
                   in if destLen + copyLen \<ge> destSize then
                        Some (False, dest,
                              SetError SAFEOPS_ERR_OUT_OF_BOUNDS
                                ''Concatenation would overflow buffer'' st2)
                      else
                        (case c_strncat 0 (the dest) (the src) (unat copyLen) of
                           None \<Rightarrow> None
                         | Some d1 \<Rightarrow>
                             (case write_at d1 (unat (destLen + copyLen)) [0] of
                                None \<Rightarrow> None
                              | Some d2 \<Rightarrow> Some (True, Some d2, st2)))))))"

section \<open>Search and replace\<close>

definition SafeStrFind ::
  "char list option \<Rightarrow> size_t \<Rightarrow> char list option \<Rightarrow> bool \<Rightarrow> state
     \<Rightarrow> (size_t option \<times> state) option" where
  "SafeStrFind haystack haystackLen needle outPos st =
     (if haystack = None \<or> needle = None \<or> \<not> outPos then
        Some (None, SetError SAFEOPS_ERR_NULL_POINTER ''NULL pointer in SafeStrFind'' st)
      else
        (case c_strlen (the needle) of
           None \<Rightarrow> None
         | Some needleLen \<Rightarrow>
             if needleLen = 0 \<or> needleLen > unat haystackLen then
               Some (None, SetError SAFEOPS_ERR_INVALID_PARAM ''Invalid needle length'' st)
             else if NUL \<notin> set (the haystack) then None
             else
               (case c_strstr (c_str (the haystack)) (c_str (the needle)) of
                  None \<Rightarrow> Some (Some haystackLen, st)
                | Some found \<Rightarrow> Some (Some (of_nat found), st))))"

text \<open>
  The counting loop of \<open>SafeStrReplace\<close>, on the strings \<open>s\<close> of \<open>str\<close> and \<open>old\<close> of
  \<open>oldStr\<close>, with \<open>pos\<close> as an offset into \<open>s\<close>:
  \<^verbatim>\<open>while ((pos = strstr(pos, oldStr)) != NULL) { count++; pos += oldLen; }\<close>
\<close>

partial_function (option) count_loop ::
  "char list \<Rightarrow> char list \<Rightarrow> nat \<Rightarrow> size_t \<Rightarrow> size_t option" where
  "count_loop s old pos count =
     (case c_strstr (drop pos s) old of
        None \<Rightarrow> Some count
      | Some i \<Rightarrow> count_loop s old (pos + i + length old) (count + 1))"

text \<open>
  The building loop: the chunk before each match and then the replacement are written to
  the scratch buffer. The result is the scratch buffer with the final write and read
  offsets.
\<close>

partial_function (option) build_loop ::
  "char list \<Rightarrow> char list \<Rightarrow> char list \<Rightarrow> nat \<Rightarrow> char list \<Rightarrow> nat
     \<Rightarrow> (char list \<times> nat \<times> nat) option" where
  "build_loop s old new readPos tempBuf writePos =
     (case c_strstr (drop readPos s) old of
        None \<Rightarrow> Some (tempBuf, writePos, readPos)
      | Some chunkLen \<Rightarrow>
          (case write_at tempBuf writePos (take chunkLen (drop readPos s)) of
             None \<Rightarrow> None
           | Some t1 \<Rightarrow>
               (case write_at t1 (writePos + chunkLen) new of
                  None \<Rightarrow> None
                | Some t2 \<Rightarrow>
                    build_loop s old new (readPos + chunkLen + length old) t2
                      (writePos + chunkLen + length new))))"

definition SafeStrReplace ::
  "char list option \<Rightarrow> size_t \<Rightarrow> char list option \<Rightarrow> char list option \<Rightarrow> bool \<Rightarrow> state
     \<Rightarrow> (size_t option \<times> char list option \<times> state) option" where
  "SafeStrReplace str strSize oldStr newStr outLen st =
     (if str = None \<or> oldStr = None \<or> newStr = None \<or> \<not> outLen then
        Some (None, str,
              SetError SAFEOPS_ERR_NULL_POINTER ''NULL pointer in SafeStrReplace'' st)
      else if \<not> (NUL \<in> set (the str) \<and> NUL \<in> set (the oldStr) \<and> NUL \<in> set (the newStr))
      then None
      else
        (let s = c_str (the str); old = c_str (the oldStr); new = c_str (the newStr);
             strLen = (of_nat (length s) :: size_t);
             oldLen = (of_nat (length old) :: size_t);
             newLen = (of_nat (length new) :: size_t)
         in if length old = 0 then
              Some (None, str,
                    SetError SAFEOPS_ERR_INVALID_PARAM ''Empty string to replace'' st)
            else
              (case count_loop s old 0 0 of
                 None \<Rightarrow> None
               | Some count \<Rightarrow>
                   (let finalLen = strLen + count * (newLen - oldLen)
                    in if finalLen \<ge> strSize then
                         Some (None, str,
                               SetError SAFEOPS_ERR_OUT_OF_BOUNDS
                                 ''Replacement would overflow buffer'' st)
                       else if count = 0 then Some (Some strLen, str, st)
                       else
                         (case SafeMalloc strSize st of
                            (None, st1) \<Rightarrow> Some (None, str, st1)
                          | (Some tempBuf, st1) \<Rightarrow>
                              (case build_loop s old new 0 (replicate (unat strSize) NUL) 0 of
                                 None \<Rightarrow> None
                               | Some (t1, writePos, readPos) \<Rightarrow>
                                   (case write_at t1 writePos (drop readPos s @ [NUL]) of
                                      None \<Rightarrow> None
                                    | Some t2 \<Rightarrow>
                                        (case read_at t2 0 (unat (finalLen + 1)) of
                                           None \<Rightarrow> None
                                         | Some bytes \<Rightarrow>
                                             (case write_at (the str) 0 bytes of
                                                None \<Rightarrow> None
                                              | Some str1 \<Rightarrow>
                                                  (case SafeFree (Some (Some tempBuf)) st1 of
                                                     None \<Rightarrow> None
                                                   | Some (ptr, st2) \<Rightarrow>
                                                       Some (Some finalLen, Some str1,
                                                             st2)))))))))))"

section \<open>Indexed access, pointer offsets, arithmetic\<close>

definition SafeWriteInt ::
  "c_int list option \<Rightarrow> size_t \<Rightarrow> size_t \<Rightarrow> c_int \<Rightarrow> state
     \<Rightarrow> (bool \<times> c_int list option \<times> state) option" where
  "SafeWriteInt array arraySize index v st =
     (if array = None then Some (False, array, st\<lparr>errno := EINVAL\<rparr>)
      else if \<not> index < arraySize then Some (False, array, st\<lparr>errno := EINVAL\<rparr>)
      else if unat index < length (the array)
      then Some (True, Some ((the array)[unat index := v]), st)
      else None)"

definition SafeReadInt ::
  "c_int list option \<Rightarrow> size_t \<Rightarrow> size_t \<Rightarrow> bool \<Rightarrow> state \<Rightarrow> (c_int option \<times> state) option" where
  "SafeReadInt array arraySize index outValue st =
     (if \<not> (array \<noteq> None \<and> outValue) then Some (None, st\<lparr>errno := EINVAL\<rparr>)
      else if \<not> index < arraySize then Some (None, st\<lparr>errno := EINVAL\<rparr>)
      else if unat index < length (the array)
      then Some (Some (the array ! unat index), st)
      else None)"

text \<open>A pointer as its address, \<^verbatim>\<open>uintptr_t\<close>; \<^verbatim>\<open>NULL\<close> is address 0.\<close>

definition SafePointerOffset :: "size_t \<Rightarrow> size_t \<Rightarrow> size_t \<Rightarrow> state \<Rightarrow> size_t \<times> state" where
  "SafePointerOffset base baseSize offset st =
     (if base = 0 then (0, st\<lparr>errno := EINVAL\<rparr>)
      else if offset > baseSize \<or> base + offset < base then (0, st\<lparr>errno := EOVERFLOW\<rparr>)
      else (base + offset, st))"

text \<open>
  \<open>SafeAddInt\<close> as compiled by GCC or Clang: \<^verbatim>\<open>__builtin_sadd_overflow\<close> stores the wrapped
  sum and reports whether the exact sum left the range of \<^verbatim>\<open>int\<close>. The second component
  is the value stored through \<open>result\<close>, if any.
\<close>

definition SafeAddInt ::
  "c_int \<Rightarrow> c_int \<Rightarrow> bool \<Rightarrow> state \<Rightarrow> bool \<times> c_int option \<times> state" where
  "SafeAddInt a b result st =
     (if \<not> result then (False, None, st\<lparr>errno := EINVAL\<rparr>)
      else if sint a + sint b < - (2 ^ 31) \<or> sint a + sint b > 2 ^ 31 - 1
      then (False, Some (a + b), st\<lparr>errno := EOVERFLOW\<rparr>)
      else (True, Some (a + b), st))"

definition SafeCastLongLongToInt :: "c_llong \<Rightarrow> bool \<Rightarrow> state \<Rightarrow> c_int option \<times> state" where
  "SafeCastLongLongToInt val out st =
     (if \<not> out then (None, st\<lparr>errno := EINVAL\<rparr>)
      else if sint val > 2 ^ 31 - 1 \<or> sint val < - (2 ^ 31) then (None, st\<lparr>errno := EOVERFLOW\<rparr>)
      else (Some (ucast val), st))"

text \<open>
  \<^verbatim>\<open>vprintf\<close>: the text printed is not part of the state. What the C library answers is
  given by the environment: \<open>ret\<close> is the value returned, negative when the output
  fails, and \<open>e\<close> is the value \<^verbatim>\<open>errno\<close> holds after the call (the value it held before,
  when the library does not touch it).
\<close>

definition c_vprintf :: "int \<Rightarrow> errno_t \<Rightarrow> state \<Rightarrow> int \<times> state" where
  "c_vprintf ret e st = (ret, st\<lparr>errno := e\<rparr>)"

text \<open>
  \<open>SafePrintf\<close>: a \<^verbatim>\<open>NULL\<close> format is refused by \<^verbatim>\<open>SAFE_RETURN_VAL_IF_FAIL\<close>; otherwise the
  result of \<^verbatim>\<open>vprintf\<close> is returned as it is, a failure included.
\<close>

definition SafePrintf :: "string option \<Rightarrow> int \<Rightarrow> errno_t \<Rightarrow> state \<Rightarrow> int \<times> state" where
  "SafePrintf format ret e st =
     (if format = None then (- 1, st\<lparr>errno := EINVAL\<rparr>) else c_vprintf ret e st)"

definition IsValidPointer :: "nat option \<Rightarrow> bool" where
  "IsValidPointer ptr = (ptr \<noteq> None)"

section \<open>File acquisition\<close>

datatype open_flag = O_RDONLY | O_WRONLY | O_CREAT | O_TRUNC | O_APPEND | O_NOFOLLOW

text \<open>The file type bits of \<^verbatim>\<open>st_mode\<close>.\<close>

datatype file_type = S_IFREG | S_IFDIR | S_IFLNK | S_IFCHR | S_IFBLK | S_IFIFO | S_IFSOCK

definition S_ISREG :: "file_type \<Rightarrow> bool" where
  "S_ISREG m = (m = S_IFREG)"

record SafeFileOpts =
  followSymlinks :: bool
  requireRegularFile :: bool
  createMode :: nat
  secureDelete :: bool

text \<open>
  What the operating system answers: whether \<^verbatim>\<open>open\<close> of a path with given flags and
  creation mode succeeds, whether \<^verbatim>\<open>fopen_s\<close> of a path with a mode string succeeds, what
  \<^verbatim>\<open>fstat\<close> reports for a descriptor (\<open>None\<close> when it fails), and whether \<^verbatim>\<open>fdopen\<close>
  succeeds. A successful open returns the lowest descriptor that is not open, as POSIX
  requires.
\<close>

record os =
  os_open :: "string \<Rightarrow> open_flag set \<Rightarrow> nat \<Rightarrow> bool"
  os_fopen :: "string \<Rightarrow> string \<Rightarrow> bool"
  os_fstat :: "nat \<Rightarrow> file_type option"
  os_fdopen :: "nat \<Rightarrow> string \<Rightarrow> bool"

definition lowest_free :: "nat list \<Rightarrow> nat" where
  "lowest_free fds =
     (case find (\<lambda>n. n \<notin> set fds) [0..<Suc (length fds)] of
        Some n \<Rightarrow> n
      | None \<Rightarrow> length fds)"

definition c_open :: "os \<Rightarrow> string \<Rightarrow> open_flag set \<Rightarrow> nat \<Rightarrow> state \<Rightarrow> nat option \<times> state" where
  "c_open sys path flags mode st =
     (if os_open sys path flags mode
      then (Some (lowest_free (open_fds st)),
            st\<lparr>open_fds := lowest_free (open_fds st) # open_fds st\<rparr>)
      else (None, st))"

text \<open>\<^verbatim>\<open>fopen_s\<close>: the stream is identified with the descriptor it holds.\<close>

definition c_fopen :: "os \<Rightarrow> string \<Rightarrow> string \<Rightarrow> state \<Rightarrow> nat option \<times> state" where
  "c_fopen sys path mode st =
     (if os_fopen sys path mode
      then (Some (lowest_free (open_fds st)),
            st\<lparr>open_fds := lowest_free (open_fds st) # open_fds st\<rparr>)
      else (None, st))"

text \<open>\<^verbatim>\<open>close\<close>, and \<^verbatim>\<open>fclose\<close> of the stream that holds the descriptor.\<close>

definition c_close :: "nat \<Rightarrow> state \<Rightarrow> state" where
  "c_close fd st = st\<lparr>open_fds := removeAll fd (open_fds st)\<rparr>"

text \<open>The options used when \<open>opts\<close> is \<^verbatim>\<open>NULL\<close>; the creation mode is octal 0644.\<close>

definition defaultOpts :: SafeFileOpts where
  "defaultOpts = \<lparr>followSymlinks = False, requireRegularFile = True, createMode = 420,
                  secureDelete = False\<rparr>"

text \<open>The flags the POSIX branch passes to \<^verbatim>\<open>open\<close>, from the mode string and the options.\<close>

definition open_flags :: "string \<Rightarrow> SafeFileOpts \<Rightarrow> open_flag set" where
  "open_flags mode opts =
     (let flags = (if CHR ''w'' \<in> set mode then {O_WRONLY, O_CREAT, O_TRUNC}
                   else if CHR ''a'' \<in> set mode then {O_WRONLY, O_CREAT, O_APPEND}
                   else {O_RDONLY})
      in if \<not> followSymlinks opts then insert O_NOFOLLOW flags else flags)"

text \<open>
  \<open>SafeFOpen\<close>, the POSIX branch. The result is the descriptor the returned stream wraps,
  \<open>None\<close> for \<^verbatim>\<open>NULL\<close>.
\<close>

definition SafeFOpen ::
  "os \<Rightarrow> string option \<Rightarrow> string option \<Rightarrow> SafeFileOpts option \<Rightarrow> state
     \<Rightarrow> nat option \<times> state" where
  "SafeFOpen sys filePath mode opts st =
     (if filePath = None \<or> mode = None then
        (None, SetError SAFEOPS_ERR_NULL_POINTER ''NULL pointer in SafeFOpen'' st)
      else
        (let opts1 = (case opts of None \<Rightarrow> defaultOpts | Some o1 \<Rightarrow> o1);
             flags = open_flags (the mode) opts1
         in case c_open sys (the filePath) flags (createMode opts1) st of
              (None, st1) \<Rightarrow> (None, SetError SAFEOPS_ERR_FILE_ACCESS ''Failed to open file'' st1)
            | (Some fd, st1) \<Rightarrow>
                (case os_fstat sys fd of
                   None \<Rightarrow>
                     (None,
                      SetError SAFEOPS_ERR_FILE_ACCESS ''Failed to stat file'' (c_close fd st1))
                 | Some st_mode \<Rightarrow>
                     if requireRegularFile opts1 \<and> \<not> S_ISREG st_mode then
                       (None,
                        SetError SAFEOPS_ERR_FILE_ACCESS ''Not a regular file'' (c_close fd st1))
                     else if \<not> os_fdopen sys fd (the mode) then
                       (None,
                        SetError SAFEOPS_ERR_FILE_ACCESS ''Failed to create FILE stream''
                          (c_close fd st1))
                     else (Some fd, st1))))"

text \<open>\<open>SafeFOpen\<close>, the branch compiled under \<^verbatim>\<open>_WIN32\<close>.\<close>

definition SafeFOpen_win32 ::
  "os \<Rightarrow> string option \<Rightarrow> string option \<Rightarrow> SafeFileOpts option \<Rightarrow> state
     \<Rightarrow> nat option \<times> state" where
  "SafeFOpen_win32 sys filePath mode opts st =
     (if filePath = None \<or> mode = None then
        (None, SetError SAFEOPS_ERR_NULL_POINTER ''NULL pointer in SafeFOpen'' st)
      else
        (let opts1 = (case opts of None \<Rightarrow> defaultOpts | Some o1 \<Rightarrow> o1)
         in case c_fopen sys (the filePath) (the mode) st of
              (None, st1) \<Rightarrow> (None, SetError SAFEOPS_ERR_FILE_ACCESS ''Failed to open file'' st1)
            | (Some fp, st1) \<Rightarrow>
                (case os_fstat sys fp of
                   None \<Rightarrow>
                     (None,
                      SetError SAFEOPS_ERR_FILE_ACCESS ''Failed to stat file'' (c_close fp st1))
                 | Some st_mode \<Rightarrow>
                     if requireRegularFile opts1 \<and> \<not> S_ISREG st_mode then
                       (None,
                        SetError SAFEOPS_ERR_FILE_ACCESS ''Not a regular file'' (c_close fp st1))
                     else (Some fp, st1))))"

section \<open>Reference functions for search and replace\<close>

text \<open>
  The specification's own notions, used to state what the two scans above compute: a needle
  occurs at an offset of a haystack; the number of non-overlapping occurrences found by a
  sequential scan that advances past each match by its full length; and the string in
  which each of these occurrences is replaced.
\<close>

definition occurs_at :: "char list \<Rightarrow> char list \<Rightarrow> nat \<Rightarrow> bool" where
  "occurs_at hay needle i = (i + length needle \<le> length hay \<and> take (length needle) (drop i hay) = needle)"

function count_occurrences :: "char list \<Rightarrow> char list \<Rightarrow> nat" where
  "count_occurrences s old =
     (if old = [] \<or> length s < length old then 0
      else if take (length old) s = old then Suc (count_occurrences (drop (length old) s) old)
      else count_occurrences (tl s) old)"
  by pat_completeness auto
termination
proof (relation "measure (\<lambda>(s, old). length s)")
  show "wf (measure (\<lambda>(s, old). length s))" by simp
next
  fix s old :: "char list"
  assume "\<not> (old = [] \<or> length s < length old)" 
  then have "0 < length old" "length old \<le> length s" by auto
  then show "((drop (length old) s, old), s, old) \<in> measure (\<lambda>(s, old). length s)"
    by (cases old) auto
next
  fix s old :: "char list"
  assume "\<not> (old = [] \<or> length s < length old)" 
  then have "0 < length old" "length old \<le> length s" by auto
  then show "((tl s, old), s, old) \<in> measure (\<lambda>(s, old). length s)"
    by (cases s) simp_all
qed

declare count_occurrences.simps [simp del]


function replace_all :: "char list \<Rightarrow> char list \<Rightarrow> char list \<Rightarrow> char list" where
  "replace_all s old new =
     (if old = [] \<or> length s < length old then s
      else if take (length old) s = old then new @ replace_all (drop (length old) s) old new
      else hd s # replace_all (tl s) old new)"
  by pat_completeness auto
termination
proof (relation "measure (\<lambda>(s, old, new). length s)")
  show "wf (measure (\<lambda>(s, old, new). length s))" by simp
next
  fix s old new :: "char list"
  assume "\<not> (old = [] \<or> length s < length old)"
  then have "0 < length old" "length old \<le> length s" by auto
  then show "((drop (length old) s, old, new), s, old, new) \<in> measure (\<lambda>(s, old, new). length s)"
    by (cases old) auto
next
  fix s old new :: "char list"
  assume "\<not> (old = [] \<or> length s < length old)"
  then have "0 < length old" "length old \<le> length s" by auto
  then show "((tl s, old, new), s, old, new) \<in> measure (\<lambda>(s, old, new). length s)"
    by (cases s) simp_all
qed

declare replace_all.simps [simp del]

text \<open>
  The specification's formula for the length after replacement,
  \<^verbatim>\<open>finalLength = originalLength + count*(newLength - oldLength)\<close>, as the exact integer.
\<close>

definition spec_finalLength :: "nat \<Rightarrow> nat \<Rightarrow> nat \<Rightarrow> nat \<Rightarrow> int" where
  "spec_finalLength originalLength count newLength oldLength =
     int originalLength + int count * (int newLength - int oldLength)"

section \<open>Error reporting\<close>

text \<open>
  The two ways a call reports its outcome, as relations between the state before, the
  success of the call and the state after. Through the last-error cell: untouched on
  success, an error code other than \<open>SAFEOPS_OK\<close> on failure. Through \<^verbatim>\<open>errno\<close>: the
  last-error cell is never touched, and on failure \<^verbatim>\<open>errno\<close> holds \<open>EINVAL\<close> or
  \<open>EOVERFLOW\<close>.
\<close>

definition reports_last_error :: "state \<Rightarrow> bool \<Rightarrow> state \<Rightarrow> bool" where
  "reports_last_error st ok st1 =
     (if ok then g_lastError st1 = g_lastError st else g_lastError st1 \<noteq> SAFEOPS_OK)"

definition reports_errno :: "state \<Rightarrow> bool \<Rightarrow> state \<Rightarrow> bool" where
  "reports_errno st ok st1 =
     (g_lastError st1 = g_lastError st
      \<and> (if ok then errno st1 = errno st else errno st1 = EINVAL \<or> errno st1 = EOVERFLOW))"

text \<open>A start state for worked examples: no logger, no error, an empty heap.\<close>

definition st0 :: state where
  "st0 = \<lparr>g_logger = False, g_lastError = SAFEOPS_OK, logged = [], errno = E_OTHER,
          heap = [], heap_limit = 4096, open_fds = [0, 1, 2]\<rparr>"

text \<open>
  An operating system for worked examples: every call succeeds and \<^verbatim>\<open>fstat\<close> reports the
  file type \<open>t\<close>.
\<close>

definition friendly_os :: "file_type \<Rightarrow> os" where
  "friendly_os t = \<lparr>os_open = (\<lambda>path flags mode. True), os_fopen = (\<lambda>path mode. True),
                    os_fstat = (\<lambda>fd. Some t), os_fdopen = (\<lambda>fd mode. True)\<rparr>"

section \<open>Properties\<close>

subsection \<open>Strings and scans\<close>

lemma first_z_nth:
  "length (str_of z s) < length s \<Longrightarrow> s ! length (str_of z s) = z"
  unfolding str_of_def using nth_length_takeWhile [of "\<lambda>c. c \<noteq> z" s] by simp

lemma before_z_nth:
  "i < length (str_of z s) \<Longrightarrow> s ! i \<noteq> z"
  unfolding str_of_def
  using takeWhile_nth [of i "\<lambda>c. c \<noteq> z" s] nth_mem [of i "takeWhile (\<lambda>c. c \<noteq> z) s"]
    set_takeWhileD [of "s ! i" "\<lambda>c. c \<noteq> z" s]
  by simp

lemma str_of_length_le: "length (str_of z s) \<le> length s"
  by (simp add: str_of_def length_takeWhile_le)

lemma str_of_length_less_iff: "length (str_of z s) < length s \<longleftrightarrow> z \<in> set s"
  unfolding str_of_def by (induction s) auto


lemma scan_len_eq:
  "len \<le> m \<Longrightarrow> len \<le> length (str_of z s) \<Longrightarrow>
   scan_len z s m len =
     (if m \<le> length (str_of z s) then Some m
      else if length (str_of z s) < length s then Some (length (str_of z s))
      else None)"
proof (induction z s m len rule: scan_len.induct)
  case (1 z str maxLen len)
  let ?k = "length (str_of z str)"
  have kle: "?k \<le> length str" by (rule str_of_length_le)
  show ?case
  proof (cases "len < maxLen")
    case False
    with 1(2) have "len = maxLen" by simp
    with 1(3) show ?thesis by (subst scan_len.simps) simp
  next
    case lt: True
    show ?thesis
    proof (cases "len < length str")
      case False
      with kle 1(3) have "?k = length str" "len = ?k" by auto
      with lt False show ?thesis by (subst scan_len.simps) simp
    next
      case inb: True
      show ?thesis
      proof (cases "str ! len = z")
        case True
        have "\<not> len < ?k" using before_z_nth [of len z str] True by auto
        with 1(3) have "len = ?k" by simp
        with lt inb True show ?thesis by (subst scan_len.simps) simp
      next
        case False
        have "len \<noteq> ?k" using first_z_nth [of z str] inb False by auto
        with 1(3) have "len + 1 \<le> ?k" by simp
        moreover have "len + 1 \<le> maxLen" using lt by simp
        ultimately have "scan_len z str maxLen (len + 1) =
          (if maxLen \<le> ?k then Some maxLen else if ?k < length str then Some ?k else None)"
          using 1(1) lt inb False by simp
        with lt inb False show ?thesis by (subst scan_len.simps) simp
      qed
    qed
  qed
qed


lemma bounded_len_eq:
  "bounded_len z f (Some s) maxLen True st =
     (if length (str_of z s) \<le> unat maxLen then
        (if length (str_of z s) < length s
         then Some (Some (of_nat (length (str_of z s))), st)
         else None)
      else Some (None, SetError SAFEOPS_ERR_OUT_OF_BOUNDS ''String exceeds maximum length'' st))"
proof -
  let ?k = "length (str_of z s)" and ?m = "unat maxLen"
  have kle: "?k \<le> length s" by (rule str_of_length_le)
  have scan: "scan_len z s ?m 0 =
     (if ?m \<le> ?k then Some ?m else if ?k < length s then Some ?k else None)"
    by (rule scan_len_eq) simp_all
  consider (a) "?m < ?k" | (b) "?m = ?k" "?k < length s" | (c) "?m = ?k" "?k = length s"
    | (d) "?k < ?m" "?k < length s" | (e) "?k < ?m" "?k = length s"
    using kle by linarith
  then show ?thesis
  proof cases
    case a
    then have "s ! ?m \<noteq> z" by (rule before_z_nth)
    with a kle scan show ?thesis by (simp add: bounded_len_def)
  next
    case b
    then have "s ! ?m = z" using first_z_nth [of z s] by simp
    with b scan show ?thesis by (simp add: bounded_len_def)
  next
    case c
    with scan show ?thesis by (simp add: bounded_len_def)
  next
    case d
    with scan show ?thesis by (simp add: bounded_len_def)
  next
    case e
    with scan show ?thesis by (simp add: bounded_len_def)
  qed
qed

lemma z_in_take_iff:
  "z \<in> set (take (Suc m) s) \<longleftrightarrow> length (str_of z s) \<le> m \<and> length (str_of z s) < length s"
proof
  assume "z \<in> set (take (Suc m) s)"
  then obtain i where i: "i < length (take (Suc m) s)" "take (Suc m) s ! i = z"
    by (auto simp: in_set_conv_nth)
  then have "i \<le> m" "i < length s" "s ! i = z" by auto
  then have "\<not> i < length (str_of z s)" using before_z_nth [of i z s] by auto
  with \<open>i \<le> m\<close> \<open>i < length s\<close>
  show "length (str_of z s) \<le> m \<and> length (str_of z s) < length s" by simp
next
  assume a: "length (str_of z s) \<le> m \<and> length (str_of z s) < length s"
  then have "s ! length (str_of z s) = z" using first_z_nth by metis
  moreover have "length (str_of z s) < length (take (Suc m) s)" using a by simp
  ultimately show "z \<in> set (take (Suc m) s)"
    by (metis nth_take nth_mem a le_imp_less_Suc)
qed

lemma str_of_take:
  "length (str_of z s) \<le> m \<Longrightarrow> str_of z (take (Suc m) s) = str_of z s"
  unfolding str_of_def
proof (induction s arbitrary: m)
  case Nil
  then show ?case by simp
next
  case (Cons a s)
  show ?case
  proof (cases "a = z")
    case True
    then show ?thesis by simp
  next
    case False
    with Cons.prems obtain m' where "m = Suc m'" by (cases m) auto
    with Cons False show ?thesis by simp
  qed
qed

lemma str_of_take_long:
  "m < length (str_of z s) \<Longrightarrow> m < length (str_of z (take (Suc m) s))"
  unfolding str_of_def
proof (induction s arbitrary: m)
  case Nil
  then show ?case by simp
next
  case (Cons a s)
  show ?case
  proof (cases "a = z")
    case True
    with Cons.prems show ?thesis by simp
  next
    case False
    show ?thesis
    proof (cases m)
      case 0
      with False show ?thesis by simp
    next
      case (Suc m')
      with Cons False show ?thesis by simp
    qed
  qed
qed

lemma bounded_len_take:
  "bounded_len z f (Some (take (Suc (unat maxLen)) s)) maxLen True st =
   bounded_len z f (Some s) maxLen True st"
proof (cases "length (str_of z s) \<le> unat maxLen")
  case True
  then have "str_of z (take (Suc (unat maxLen)) s) = str_of z s" by (rule str_of_take)
  with True show ?thesis by (auto simp: bounded_len_eq)
next
  case False
  then have "unat maxLen < length (str_of z (take (Suc (unat maxLen)) s))"
    using str_of_take_long [of "unat maxLen" z s] by simp
  with False show ?thesis by (simp add: bounded_len_eq)
qed

lemma take_eq_imp_length: "take (length n) h = n \<Longrightarrow> length n \<le> length h"
  using length_take [of "length n" h] by simp

lemma c_strstr_None:
  "old \<noteq> [] \<Longrightarrow> c_strstr h old = None \<Longrightarrow>
   count_occurrences h old = 0 \<and> replace_all h old new = h \<and> (\<forall>i. \<not> occurs_at h old i)"
proof (induction h)
  case Nil
  then show ?case by (subst count_occurrences.simps, subst replace_all.simps) (simp add: occurs_at_def)
next
  case (Cons c cs)
  from Cons.prems have ne: "take (length old) (c # cs) \<noteq> old" and rest: "c_strstr cs old = None"
    by (auto split: if_splits)
  from Cons.IH [OF Cons.prems(1) rest]
  have ih: "count_occurrences cs old = 0" "replace_all cs old new = cs" "\<forall>i. \<not> occurs_at cs old i"
    by auto
  have "count_occurrences (c # cs) old = 0"
    using ne ih by (subst count_occurrences.simps) simp
  moreover have "replace_all (c # cs) old new = c # cs"
    using ne ih by (subst replace_all.simps) simp
  moreover have "\<not> occurs_at (c # cs) old i" for i
  proof (cases i)
    case 0
    with ne show ?thesis by (simp add: occurs_at_def)
  next
    case (Suc j)
    with ih(3) show ?thesis by (simp add: occurs_at_def)
  qed
  ultimately show ?case by simp
qed

lemma c_strstr_Some:
  "old \<noteq> [] \<Longrightarrow> c_strstr h old = Some i \<Longrightarrow>
   i + length old \<le> length h
   \<and> count_occurrences h old = Suc (count_occurrences (drop (i + length old) h) old)
   \<and> replace_all h old new = take i h @ new @ replace_all (drop (i + length old) h) old new
   \<and> occurs_at h old i \<and> (\<forall>j<i. \<not> occurs_at h old j)"
proof (induction h arbitrary: i)
  case Nil
  then show ?case by simp
next
  case (Cons c cs)
  show ?case
  proof (cases "take (length old) (c # cs) = old")
    case True
    with Cons.prems have i0: "i = 0" by simp
    have len: "length old \<le> length (c # cs)" using True by (rule take_eq_imp_length)
    have "count_occurrences (c # cs) old = Suc (count_occurrences (drop (length old) (c # cs)) old)"
      using True len Cons.prems(1) by (subst count_occurrences.simps) simp
    moreover have "replace_all (c # cs) old new = new @ replace_all (drop (length old) (c # cs)) old new"
      using True len Cons.prems(1) by (subst replace_all.simps) simp
    ultimately show ?thesis using i0 True len by (simp add: occurs_at_def)
  next
    case False
    with Cons.prems obtain j where j: "c_strstr cs old = Some j" "i = Suc j" by auto
    from Cons.IH [OF Cons.prems(1) j(1)]
    have ih: "j + length old \<le> length cs"
      "count_occurrences cs old = Suc (count_occurrences (drop (j + length old) cs) old)"
      "replace_all cs old new = take j cs @ new @ replace_all (drop (j + length old) cs) old new"
      "occurs_at cs old j" "\<forall>k<j. \<not> occurs_at cs old k"
      by auto
    have len: "\<not> length (c # cs) < length old" using ih(1) by simp
    have "count_occurrences (c # cs) old = count_occurrences cs old"
      using False len Cons.prems(1) by (subst count_occurrences.simps) simp
    moreover have "replace_all (c # cs) old new = c # replace_all cs old new"
      using False len Cons.prems(1) by (subst replace_all.simps) simp
    moreover have "\<not> occurs_at (c # cs) old k" if "k < i" for k
    proof (cases k)
      case 0
      with False show ?thesis by (simp add: occurs_at_def)
    next
      case (Suc k')
      with that j(2) ih(5) show ?thesis by (simp add: occurs_at_def)
    qed
    ultimately show ?thesis using ih j(2) by (simp add: occurs_at_def)
  qed
qed

lemma count_loop_eq:
  "old \<noteq> [] \<Longrightarrow> pos \<le> length s \<Longrightarrow>
   count_loop s old pos c = Some (c + of_nat (count_occurrences (drop pos s) old))"
proof (induction "length s - pos" arbitrary: pos c rule: less_induct)
  case less
  show ?case
  proof (cases "c_strstr (drop pos s) old")
    case None
    with c_strstr_None [OF less.prems(1) None] show ?thesis
      by (subst count_loop.simps) simp
  next
    case (Some i)
    from c_strstr_Some [OF less.prems(1) Some]
    have le: "i + length old \<le> length (drop pos s)"
      and cnt: "count_occurrences (drop pos s) old =
                  Suc (count_occurrences (drop (i + length old) (drop pos s)) old)"
      by auto
    let ?pos = "pos + i + length old"
    have pos': "?pos \<le> length s" using le less.prems(2) by simp
    have "0 < length old" using less.prems(1) by simp
    then have dec: "length s - ?pos < length s - pos" using pos' by linarith
    have dd: "drop (i + length old) (drop pos s) = drop ?pos s"
      by (simp add: add.commute add.left_commute)
    have "count_loop s old ?pos (c + 1) =
            Some (c + 1 + of_nat (count_occurrences (drop ?pos s) old))"
      using less.hyps [OF dec less.prems(1) pos'] .
    with Some cnt dd show ?thesis
      by (subst count_loop.simps) simp
  qed
qed

lemma replace_all_length:
  "old \<noteq> [] \<Longrightarrow>
   length (replace_all s old new) + count_occurrences s old * length old =
   length s + count_occurrences s old * length new"
proof (induction s old new rule: replace_all.induct)
  case (1 s old new)
  show ?case
  proof (cases "length s < length old")
    case True
    then show ?thesis
      by (subst replace_all.simps, subst (1 2) count_occurrences.simps) simp
  next
    case False
    show ?thesis
    proof (cases "take (length old) s = old")
      case True
      have r: "replace_all s old new = new @ replace_all (drop (length old) s) old new"
        using True False 1(3) by (subst replace_all.simps) simp
      have c: "count_occurrences s old = Suc (count_occurrences (drop (length old) s) old)"
        using True False 1(3) by (subst count_occurrences.simps) simp
      have "length (replace_all (drop (length old) s) old new)
              + count_occurrences (drop (length old) s) old * length old
            = length (drop (length old) s)
              + count_occurrences (drop (length old) s) old * length new"
        using 1(1) True False 1(3) by simp
      with False show ?thesis unfolding r c by simp
    next
      case ne: False
      from False 1(3) have "s \<noteq> []" by auto
      have r: "replace_all s old new = hd s # replace_all (tl s) old new"
        using ne False 1(3) by (subst replace_all.simps) simp
      have c: "count_occurrences s old = count_occurrences (tl s) old"
        using ne False 1(3) by (subst count_occurrences.simps) simp
      have "length (replace_all (tl s) old new) + count_occurrences (tl s) old * length old
            = length (tl s) + count_occurrences (tl s) old * length new"
        using 1(2) ne False 1(3) by simp
      with \<open>s \<noteq> []\<close> show ?thesis unfolding r c by (cases s) simp_all
    qed
  qed
qed

lemma final_length_word:
  assumes "old \<noteq> []"
  shows "(of_nat (length s) + of_nat (count_occurrences s old)
            * (of_nat (length new) - of_nat (length old)) :: size_t)
         = of_nat (length (replace_all s old new))"
proof -
  have "(of_nat (length (replace_all s old new) + count_occurrences s old * length old) :: size_t)
        = of_nat (length s + count_occurrences s old * length new)"
    using replace_all_length [OF assms, of s new] by simp
  then show ?thesis by (simp add: algebra_simps)
qed

lemma write_at_Some:
  "off + length xs \<le> length buf \<Longrightarrow>
   write_at buf off xs = Some (take off buf @ xs @ drop (off + length xs) buf)"
  by (simp add: write_at_def)

lemma patch_length:
  "off + length xs \<le> length buf \<Longrightarrow>
   length (take off buf @ xs @ drop (off + length xs) buf) = length buf"
  by simp

lemma patch_take:
  "off + length xs \<le> length buf \<Longrightarrow>
   take (off + length xs) (take off buf @ xs @ drop (off + length xs) buf) = take off buf @ xs"
  by simp

lemma patch_drop:
  "off + length xs \<le> length buf \<Longrightarrow>
   drop (off + length xs + k) (take off buf @ xs @ drop (off + length xs) buf)
     = drop (off + length xs + k) buf"
  by (simp add: add.commute add.left_commute)

lemma build_loop_eq:
  "old \<noteq> [] \<Longrightarrow> readPos \<le> length s \<Longrightarrow>
   writePos + length (replace_all (drop readPos s) old new) + 1 \<le> length t \<Longrightarrow>
   \<exists>t1 w r. build_loop s old new readPos t writePos = Some (t1, w, r)
     \<and> write_at t1 w (drop r s @ [NUL]) =
         Some (take writePos t @ replace_all (drop readPos s) old new @
               NUL # drop (writePos + length (replace_all (drop readPos s) old new) + 1) t)"
proof (induction "length s - readPos" arbitrary: readPos t writePos rule: less_induct)
  case less
  let ?h = "drop readPos s"
  show ?case
  proof (cases "c_strstr ?h old")
    case None
    from c_strstr_None [OF less.prems(1) None] have R: "replace_all ?h old new = ?h" by simp
    have b: "build_loop s old new readPos t writePos = Some (t, writePos, readPos)"
      using None by (subst build_loop.simps) simp
    have "writePos + length (?h @ [NUL]) \<le> length t" using less.prems(3) R by simp
    then have "write_at t writePos (?h @ [NUL]) =
       Some (take writePos t @ (?h @ [NUL]) @ drop (writePos + length (?h @ [NUL])) t)"
      by (rule write_at_Some)
    with b R show ?thesis by simp
  next
    case (Some i)
    from c_strstr_Some [OF less.prems(1) Some, of new]
    have le: "i + length old \<le> length ?h"
      and R: "replace_all ?h old new =
                take i ?h @ new @ replace_all (drop (i + length old) ?h) old new"
      by auto
    let ?rp = "readPos + i + length old"
    let ?wp = "writePos + i + length new"
    let ?R' = "replace_all (drop ?rp s) old new"
    have dd: "drop (i + length old) ?h = drop ?rp s"
      by (simp add: add.commute add.left_commute)
    have li: "length (take i ?h) = i" using le by simp
    have lenR: "length (replace_all ?h old new) = i + length new + length ?R'"
      using R dd li by simp
    have rp: "?rp \<le> length s" using le less.prems(2) by simp
    have "0 < length old" using less.prems(1) by simp
    then have dec: "length s - ?rp < length s - readPos" using rp by linarith
    define c where "c = take i ?h"
    have li: "length c = i" using le by (simp add: c_def)
    define t1 where "t1 = take writePos t @ c @ drop (writePos + length c) t"
    have b1: "writePos + length c \<le> length t" using less.prems(3) lenR li by simp
    have w1: "write_at t writePos c = Some t1"
      unfolding t1_def by (rule write_at_Some [OF b1])
    have l1: "length t1 = length t"
      unfolding t1_def by (rule patch_length [OF b1])
    have tk1: "take (writePos + length c) t1 = take writePos t @ c"
      unfolding t1_def by (rule patch_take [OF b1])
    have dr1: "drop (writePos + length c + k) t1 = drop (writePos + length c + k) t" for k
      unfolding t1_def by (rule patch_drop [OF b1])
    define t2 where
      "t2 = take (writePos + length c) t1 @ new @ drop (writePos + length c + length new) t1"
    have b2: "(writePos + length c) + length new \<le> length t1"
      using less.prems(3) lenR l1 li by simp
    have w2: "write_at t1 (writePos + length c) new = Some t2"
      unfolding t2_def by (rule write_at_Some [OF b2])
    have l2: "length t2 = length t"
      unfolding t2_def using patch_length [OF b2] l1 by (rule trans)
    have tk2: "take (writePos + length c + length new) t2 = take (writePos + length c) t1 @ new"
      unfolding t2_def by (rule patch_take [OF b2])
    have dr2: "drop (writePos + length c + length new + k) t2
                 = drop (writePos + length c + length new + k) t1" for k
      unfolding t2_def by (rule patch_drop [OF b2])
    have bound: "?wp + length ?R' + 1 \<le> length t2" using less.prems(3) lenR l2 by simp
    from less.hyps [OF dec less.prems(1) rp bound]
    obtain t3 w r where
      b3: "build_loop s old new ?rp t2 ?wp = Some (t3, w, r)" and
      w3: "write_at t3 w (drop r s @ [NUL]) =
             Some (take ?wp t2 @ ?R' @ NUL # drop (?wp + length ?R' + 1) t2)"
      by blast
    have b: "build_loop s old new readPos t writePos = Some (t3, w, r)"
      using Some w1 w2 b3 li by (subst build_loop.simps) (simp add: c_def)
    have tk: "take ?wp t2 = take writePos t @ c @ new"
      using tk2 tk1 li by simp
    have "drop (writePos + length c + length new + (length ?R' + 1)) t2
            = drop (writePos + length c + (length new + (length ?R' + 1))) t"
      using dr2 [of "length ?R' + 1"] dr1 [of "length new + (length ?R' + 1)"]
      by (simp add: add.assoc)
    then have dr: "drop (?wp + length ?R' + 1) t2 =
                drop (writePos + length (replace_all ?h old new) + 1) t"
      using lenR li by (simp add: add.assoc)
    have "take ?wp t2 @ ?R' @ NUL # drop (?wp + length ?R' + 1) t2 =
          take writePos t @ replace_all ?h old new @
            NUL # drop (writePos + length (replace_all ?h old new) + 1) t"
      unfolding tk dr using R dd by (simp add: c_def)
    with b w3 show ?thesis by simp
  qed
qed

lemma fold_max_ge: "m \<le> fold max xs (m::nat)"
proof (induction xs arbitrary: m)
  case Nil
  show ?case by simp
next
  case (Cons x xs)
  have "max x m \<le> fold max xs (max x m)" by (rule Cons.IH)
  then show ?case by simp
qed

lemma fold_max_mem: "a \<in> set xs \<Longrightarrow> a \<le> fold max xs (m::nat)"
proof (induction xs arbitrary: m)
  case Nil
  then show ?case by simp
next
  case (Cons x xs)
  show ?case
  proof (cases "a = x")
    case True
    have "max x m \<le> fold max xs (max x m)" by (rule fold_max_ge)
    with True show ?thesis by simp
  next
    case False
    with Cons.prems have "a \<in> set xs" by simp
    then have "a \<le> fold max xs (max x m)" by (rule Cons.IH)
    then show ?thesis by simp
  qed
qed

lemma fresh_addr_fresh: "fresh_addr st \<notin> fst ` set (heap st)"
proof
  assume "fresh_addr st \<in> fst ` set (heap st)"
  then have "fresh_addr st \<in> set (map fst (heap st))" by simp
  then have "fresh_addr st \<le> fold max (map fst (heap st)) 0" by (rule fold_max_mem)
  then show False by (simp add: fresh_addr_def)
qed

lemma SafeMalloc_Some:
  assumes "SafeMalloc sz st = (Some p, st1)"
  shows "p = fresh_addr st \<and> st1 = st\<lparr>heap := (p, unat sz) # heap st\<rparr>"
  using assms
  by (auto simp: SafeMalloc_def c_malloc_def split: if_splits)

lemma SafeMalloc_SafeFree:
  assumes "SafeMalloc sz st = (Some p, st1)"
  shows "SafeFree (Some (Some p)) st1 = Some (Some None, st)"
proof -
  from SafeMalloc_Some [OF assms]
  have p: "p = fresh_addr st" and st1: "st1 = st\<lparr>heap := (p, unat sz) # heap st\<rparr>" by auto
  have "p \<notin> fst ` set (heap st)" unfolding p by (rule fresh_addr_fresh)
  then have "filter (\<lambda>b. fst b \<noteq> p) (heap st) = heap st"
    by (auto simp: filter_id_conv)
  then show ?thesis unfolding st1 by (simp add: SafeFree_def c_free_def)
qed

lemma SafeStrReplace_oob:
  assumes "NUL \<in> set b" "NUL \<in> set ob" "NUL \<in> set nb" "c_str ob \<noteq> []"
    and "(of_nat (length (replace_all (c_str b) (c_str ob) (c_str nb))) :: size_t) \<ge> strSize"
  shows "SafeStrReplace (Some b) strSize (Some ob) (Some nb) True st =
           Some (None, Some b,
                 SetError SAFEOPS_ERR_OUT_OF_BOUNDS ''Replacement would overflow buffer'' st)"
  using assms
  by (simp add: SafeStrReplace_def Let_def count_loop_eq final_length_word)

lemma SafeStrReplace_zero:
  assumes "NUL \<in> set b" "NUL \<in> set ob" "NUL \<in> set nb" "c_str ob \<noteq> []"
    and "(of_nat (length (replace_all (c_str b) (c_str ob) (c_str nb))) :: size_t) < strSize"
    and "(of_nat (count_occurrences (c_str b) (c_str ob)) :: size_t) = 0"
  shows "SafeStrReplace (Some b) strSize (Some ob) (Some nb) True st =
           Some (Some (of_nat (length (c_str b))), Some b, st)"
  using assms
  by (simp add: SafeStrReplace_def Let_def count_loop_eq final_length_word)

lemma SafeStrReplace_nomem:
  assumes "NUL \<in> set b" "NUL \<in> set ob" "NUL \<in> set nb" "c_str ob \<noteq> []"
    and "(of_nat (length (replace_all (c_str b) (c_str ob) (c_str nb))) :: size_t) < strSize"
    and "(of_nat (count_occurrences (c_str b) (c_str ob)) :: size_t) \<noteq> 0"
    and "SafeMalloc strSize st = (None, st1)"
  shows "SafeStrReplace (Some b) strSize (Some ob) (Some nb) True st = Some (None, Some b, st1)"
  using assms
  by (simp add: SafeStrReplace_def Let_def count_loop_eq final_length_word)

lemma SafeStrReplace_done:
  assumes "NUL \<in> set b" "NUL \<in> set ob" "NUL \<in> set nb" "c_str ob \<noteq> []"
    and lt: "length (replace_all (c_str b) (c_str ob) (c_str nb)) < unat strSize"
    and fit: "length (replace_all (c_str b) (c_str ob) (c_str nb)) < length b"
    and cnt: "(of_nat (count_occurrences (c_str b) (c_str ob)) :: size_t) \<noteq> 0"
    and m: "SafeMalloc strSize st = (Some p, st1)"
  shows "SafeStrReplace (Some b) strSize (Some ob) (Some nb) True st =
           Some (Some (of_nat (length (replace_all (c_str b) (c_str ob) (c_str nb)))),
                 Some (replace_all (c_str b) (c_str ob) (c_str nb) @
                       NUL # drop (length (replace_all (c_str b) (c_str ob) (c_str nb)) + 1) b),
                 st)"
proof -
  let ?s = "c_str b" and ?old = "c_str ob" and ?new = "c_str nb"
  let ?R = "replace_all ?s ?old ?new"
  let ?t = "replicate (unat strSize) NUL"
  have un: "unat (of_nat (length ?R) :: size_t) = length ?R"
    using lt by (intro le_unat_uoi [of _ strSize]) simp
  have wlt: "(of_nat (length ?R) :: size_t) < strSize"
    using lt un by (simp add: word_less_nat_alt)
  have "unat strSize < 2 ^ LENGTH(64)" by (rule unsigned_less)
  then have "unat (of_nat (length ?R) :: size_t) + unat (1 :: size_t) < 2 ^ LENGTH(64)"
    using lt un by simp
  then have un1: "unat ((of_nat (length ?R) :: size_t) + 1) = length ?R + 1"
    using un by (simp add: unat_add_lem [THEN iffD1])
  have bound: "0 + length (replace_all (drop 0 ?s) ?old ?new) + 1 \<le> length ?t"
    using lt by simp
  from build_loop_eq [OF assms(4) _ bound]
  obtain t1 w r where
    bl: "build_loop ?s ?old ?new 0 ?t 0 = Some (t1, w, r)" and
    wr: "write_at t1 w (drop r ?s @ [NUL]) = Some (?R @ NUL # drop (length ?R + 1) ?t)"
    by auto
  have rd: "read_at (?R @ NUL # drop (length ?R + 1) ?t) 0 (length ?R + 1) = Some (?R @ [NUL])"
    by (simp add: read_at_def)
  have wb: "write_at b 0 (?R @ [NUL]) = Some (?R @ NUL # drop (length ?R + 1) b)"
    using fit by (simp add: write_at_def)
  have fr: "SafeFree (Some (Some p)) st1 = Some (Some None, st)"
    using m by (rule SafeMalloc_SafeFree)
  show ?thesis
    using assms(1-4) wlt cnt m bl wr rd wb fr un1
    by (simp add: SafeStrReplace_def Let_def count_loop_eq final_length_word)
qed

subsection \<open>Evaluation on concrete buffers\<close>

lemma unat_SIZE_MAX: "unat SIZE_MAX = 18446744073709551615"
  by (simp add: SIZE_MAX_def unsigned_minus_1_eq_mask mask_eq_exp_minus_1)

lemma replicate_num: "replicate (numeral k) x = x # replicate (pred_numeral k) x"
  by (simp add: numeral_eq_Suc)

lemmas eval_defs = SafeStrLen_def SafeWStrLen_def bounded_len_def scan_len.simps SetError_def
  st0_def
  read_at_def write_at_def unat_SIZE_MAX str_of_def c_strlen_def replicate_num

lemma hello_cat:
  "SafeStrCat (Some (''Hello, World!'' @ replicate 37 NUL)) 50
      (Some ('' How are you?'' @ [NUL])) st0
   = Some (True, Some (''Hello, World! How are you?'' @ replicate 24 NUL), st0)"
  by (simp add: SafeStrCat_def eval_defs)

lemma hello_replace:
  "SafeStrReplace (Some (''Hello, World! How are you?'' @ replicate 24 NUL)) 50
      (Some (''World'' @ [NUL])) (Some (''Everyone'' @ [NUL])) True st0
   = Some (Some 29, Some (''Hello, Everyone! How are you?'' @ replicate 21 NUL), st0)"
  by (simp add: SafeStrReplace_def eval_defs count_loop.simps build_loop.simps SafeMalloc_def
      c_malloc_def SafeFree_def c_free_def heap_used_def fresh_addr_def SIZE_MAX_def)


subsection \<open>Release\<close>

lemma SafeMalloc_live:
  assumes "SafeMalloc sz st = (Some p, st1)"
  shows "p \<in> fst ` set (heap st1)"
  using assms
  by (auto simp: SafeMalloc_def c_malloc_def split: if_splits)

lemma SafeFree_live:
  assumes "p \<in> fst ` set (heap st)"
  shows "SafeFree (Some (Some p)) st =
           Some (Some None, st\<lparr>heap := filter (\<lambda>b. fst b \<noteq> p) (heap st)\<rparr>)"
  using assms by (simp add: SafeFree_def c_free_def)

lemma SafeMallocUninitialized_live:
  assumes "SafeMallocUninitialized sz st = (Some p, st1)"
  shows "p \<in> fst ` set (heap st1)"
  using assms
  by (auto simp: SafeMallocUninitialized_def c_malloc_def split: if_splits)

text \<open>
  C8. A handle returned by \<open>SafeMalloc\<close> or \<open>SafeMallocUninitialized\<close> refers to a live
  block. \<open>SafeFree\<close> on a handle to a live block is defined, returns the block to the
  allocator (the address is no longer live) and stores \<^verbatim>\<open>NULL\<close> in the handle; a second
  \<open>SafeFree\<close> on the handle, which now holds \<^verbatim>\<open>NULL\<close>, is defined as well, never reaches
  \<^verbatim>\<open>free\<close>, and changes neither the handle nor the state.
\<close>

theorem SafeFree_twice:
  "(SafeMalloc sz st = (Some p, st1) \<or> SafeMallocUninitialized sz st = (Some p, st1) \<longrightarrow>
      p \<in> fst ` set (heap st1))
   \<and> (q \<in> fst ` set (heap st2) \<longrightarrow>
        (\<exists>st3. SafeFree (Some (Some q)) st2 = Some (Some None, st3)
           \<and> q \<notin> fst ` set (heap st3)
           \<and> SafeFree (Some None) st3 = Some (Some None, st3)))"
proof -
  have "\<exists>st3. SafeFree (Some (Some q)) st2 = Some (Some None, st3)
           \<and> q \<notin> fst ` set (heap st3)
           \<and> SafeFree (Some None) st3 = Some (Some None, st3)"
    if live: "q \<in> fst ` set (heap st2)"
  proof -
    let ?st3 = "st2\<lparr>heap := filter (\<lambda>b. fst b \<noteq> q) (heap st2)\<rparr>"
    have "SafeFree (Some (Some q)) st2 = Some (Some None, ?st3)"
      using live by (rule SafeFree_live)
    moreover have "q \<notin> fst ` set (heap ?st3)"
      by auto
    moreover have "SafeFree (Some None) ?st3 = Some (Some None, ?st3)"
      by (simp add: SafeFree_def)
    ultimately show ?thesis by blast
  qed
  then show ?thesis
    using SafeMalloc_live [of sz st p st1] SafeMallocUninitialized_live [of sz st p st1]
    by blast
qed

theorem SafeFree_twice_witness:
  "SafeMalloc 100 st0 = (Some 1, st0\<lparr>heap := [(1, 100)]\<rparr>)
   \<and> 1 \<in> fst ` set (heap (st0\<lparr>heap := [(1, 100)]\<rparr>))
   \<and> SafeFree (Some (Some 1)) (st0\<lparr>heap := [(1, 100)]\<rparr>) = Some (Some None, st0)
   \<and> 1 \<notin> fst ` set (heap st0)
   \<and> SafeFree (Some None) st0 = Some (Some None, st0)"
proof -
  have m: "SafeMalloc 100 st0 = (Some 1, st0\<lparr>heap := [(1, 100)]\<rparr>)"
    by (simp add: SafeMalloc_def c_malloc_def heap_used_def fresh_addr_def st0_def SIZE_MAX_def)
  note t = SafeFree_twice [where sz = 100 and st = st0 and p = 1
      and ?st1.0 = "st0\<lparr>heap := [(1, 100)]\<rparr>" and q = 1
      and ?st2.0 = "st0\<lparr>heap := [(1, 100)]\<rparr>"]
  have live: "1 \<in> fst ` set (heap (st0\<lparr>heap := [(1, 100)]\<rparr>))"
    using t m by blast
  have f1: "SafeFree (Some (Some 1)) (st0\<lparr>heap := [(1, 100)]\<rparr>) = Some (Some None, st0)"
    by (simp add: SafeFree_def c_free_def st0_def)
  have nl: "1 \<notin> fst ` set (heap st0)" by (simp add: st0_def)
  have f2: "SafeFree (Some None) st0 = Some (Some None, st0)"
    by (simp add: SafeFree_def)
  show ?thesis by (intro conjI) (fact m live f1 nl f2)+
qed

subsection \<open>End to end\<close>

text \<open>
  C5, as the code runs it. In a buffer of capacity 50 that holds \<^verbatim>\<open>Hello, World!\<close>,
  \<open>SafeStrCat\<close> of \<^verbatim>\<open> How are you?\<close> succeeds and leaves \<^verbatim>\<open>Hello, World! How are you?\<close>;
  \<open>SafeStrReplace\<close> of \<^verbatim>\<open>World\<close> by \<^verbatim>\<open>Everyone\<close> then succeeds, leaves
  \<^verbatim>\<open>Hello, Everyone! How are you?\<close> and reports the length 29, which is the length of
  that string.
\<close>

theorem hello_end_to_end:
  "SafeStrCat (Some (''Hello, World!'' @ replicate 37 NUL)) 50
      (Some ('' How are you?'' @ [NUL])) st0
     = Some (True, Some (''Hello, World! How are you?'' @ replicate 24 NUL), st0)
   \<and> SafeStrReplace (Some (''Hello, World! How are you?'' @ replicate 24 NUL)) 50
      (Some (''World'' @ [NUL])) (Some (''Everyone'' @ [NUL])) True st0
     = Some (Some 29, Some (''Hello, Everyone! How are you?'' @ replicate 21 NUL), st0)
   \<and> length ''Hello, Everyone! How are you?'' = 29"
  using hello_cat hello_replace by simp

text \<open>C5 as stated fails: the length reported for the replacement is not 31.\<close>

theorem hello_length_not_31:
  "map_option fst
     (SafeStrReplace (Some (''Hello, World! How are you?'' @ replicate 24 NUL)) 50
        (Some (''World'' @ [NUL])) (Some (''Everyone'' @ [NUL])) True st0)
   \<noteq> Some (Some 31)"
  using hello_replace by simp

subsection \<open>Concatenation onto an unterminated destination\<close>

text \<open>
  A destination with no terminator within \<open>destSize\<close>. When the object behind \<open>dest\<close> is
  longer than \<open>destSize\<close>, the length scan reads \<open>dest[destSize]\<close> inside the object and
  the call fails with \<open>SAFEOPS_ERR_OUT_OF_BOUNDS\<close> without writing. When the object has
  exactly \<open>destSize\<close> bytes, the same read is one past its end.
\<close>

lemma no_terminator_prefix:
  assumes "z \<notin> set (take m s)" and "m \<le> length s"
  shows "m \<le> length (str_of z s)"
proof (cases m)
  case 0
  then show ?thesis by simp
next
  case (Suc m')
  with assms z_in_take_iff [of z m' s] show ?thesis by auto
qed

lemma SafeStrCat_unterminated_exact:
  assumes "NUL \<notin> set d" and "length d = unat destSize"
  shows "SafeStrCat (Some d) destSize (Some s) st = None"
proof -
  have "length (c_str d) = length d"
    using assms(1) str_of_length_less_iff [of NUL d] str_of_length_le [of NUL d] by simp
  then show ?thesis
    using assms(2) by (simp add: SafeStrCat_def SafeStrLen_def bounded_len_eq)
qed

lemma SafeStrCat_unterminated_longer:
  assumes no: "NUL \<notin> set (take (unat destSize) d)" and longer: "unat destSize < length d"
    and s: "NUL \<in> set s" and fit: "unat destSize + length s \<le> unat SIZE_MAX"
  shows "\<exists>msg. SafeStrCat (Some d) destSize (Some s) st =
           Some (False, Some d, SetError SAFEOPS_ERR_OUT_OF_BOUNDS msg st)"
proof -
  let ?kd = "length (c_str d)" and ?ks = "length (c_str s)"
  have ge: "unat destSize \<le> ?kd" using no longer by (intro no_terminator_prefix) simp_all
  have ks: "?ks < length s" using s by (simp add: str_of_length_less_iff)
  show ?thesis
  proof (cases "unat destSize < ?kd")
    case True
    then have "SafeStrCat (Some d) destSize (Some s) st =
        Some (False, Some d,
              SetError SAFEOPS_ERR_OUT_OF_BOUNDS ''String exceeds maximum length'' st)"
      by (simp add: SafeStrCat_def SafeStrLen_def bounded_len_eq)
    then show ?thesis by blast
  next
    case False
    with ge have eq: "?kd = unat destSize" by simp
    have lend: "SafeStrLen (Some d) destSize True st = Some (Some destSize, st)"
      using eq longer by (simp add: SafeStrLen_def bounded_len_eq)
    have "?ks \<le> unat SIZE_MAX" using ks fit by linarith
    then have lens: "SafeStrLen (Some s) SIZE_MAX True st = Some (Some (of_nat ?ks), st)"
      using ks by (simp add: SafeStrLen_def bounded_len_eq)
    have "unat destSize + ?ks \<le> unat SIZE_MAX" using ks fit by linarith
    then have "unat (of_nat (unat destSize + ?ks) :: size_t) = unat destSize + ?ks"
      by (rule le_unat_uoi)
    then have "unat destSize \<le> unat (destSize + of_nat ?ks :: size_t)" by simp
    then have "destSize \<le> destSize + (of_nat ?ks :: size_t)"
      by (simp add: word_le_nat_alt)
    with lend lens have "SafeStrCat (Some d) destSize (Some s) st =
        Some (False, Some d,
              SetError SAFEOPS_ERR_OUT_OF_BOUNDS ''Concatenation would overflow buffer'' st)"
      by (simp add: SafeStrCat_def)
    then show ?thesis by blast
  qed
qed

text \<open>
  C10 at an input the code mishandles: a destination of exactly four bytes, none of them
  a terminator, passed with capacity 4. The length scan stops at index 4 and then
  reads \<^verbatim>\<open>str[4]\<close>, one element past the object, so the call has no defined result.
\<close>

theorem SafeStrCat_unterminated_dest:
  "SafeStrCat (Some ''abcd'') 4 (Some (''x'' @ [NUL])) st0 = None"
  by (simp add: SafeStrCat_def eval_defs)

subsection \<open>Bounded length\<close>

text \<open>
  C6 as stated fails: with \<open>maxLen = 3\<close> and no terminator among the first three
  elements, \<open>SafeStrLen\<close> reads the fourth element and succeeds with length 3.
\<close>

theorem SafeStrLen_reads_index_maxLen:
  "NUL \<notin> set (take 3 (''abc'' @ [NUL]))
   \<and> SafeStrLen (Some (''abc'' @ [NUL])) 3 True st0 = Some (Some 3, st0)"
  by (simp add: eval_defs)

text \<open>
  C6, amended. \<open>SafeStrLen\<close> and \<open>SafeWStrLen\<close> look at no element beyond index \<open>maxLen\<close>:
  the result is the same on the first \<open>maxLen + 1\<close> elements alone. When a terminator
  occurs at an index up to and including \<open>maxLen\<close> the call succeeds with the index of
  the first terminator, and only then; when the elements at indices \<open>0\<close> to \<open>maxLen\<close> exist
  and none is a terminator it fails with \<open>SAFEOPS_ERR_OUT_OF_BOUNDS\<close>.
\<close>

theorem bounded_length_amended:
  fixes s :: "char list" and ws :: "wchar_t list"
  shows "SafeStrLen (Some (take (Suc (unat maxLen)) s)) maxLen True st
           = SafeStrLen (Some s) maxLen True st
     \<and> (NUL \<in> set (take (Suc (unat maxLen)) s) \<longrightarrow>
          SafeStrLen (Some s) maxLen True st = Some (Some (of_nat (length (c_str s))), st))
     \<and> ((\<exists>n st1. SafeStrLen (Some s) maxLen True st = Some (Some n, st1)) \<longrightarrow>
          NUL \<in> set (take (Suc (unat maxLen)) s))
     \<and> (NUL \<notin> set (take (Suc (unat maxLen)) s) \<and> unat maxLen < length s \<longrightarrow>
          SafeStrLen (Some s) maxLen True st =
            Some (None, SetError SAFEOPS_ERR_OUT_OF_BOUNDS ''String exceeds maximum length'' st))
     \<and> SafeWStrLen (Some (take (Suc (unat maxLen)) ws)) maxLen True st
           = SafeWStrLen (Some ws) maxLen True st
     \<and> (0 \<in> set (take (Suc (unat maxLen)) ws) \<longrightarrow>
          SafeWStrLen (Some ws) maxLen True st = Some (Some (of_nat (length (str_of 0 ws))), st))
     \<and> ((\<exists>n st1. SafeWStrLen (Some ws) maxLen True st = Some (Some n, st1)) \<longrightarrow>
          0 \<in> set (take (Suc (unat maxLen)) ws))
     \<and> (0 \<notin> set (take (Suc (unat maxLen)) ws) \<and> unat maxLen < length ws \<longrightarrow>
          SafeWStrLen (Some ws) maxLen True st =
            Some (None, SetError SAFEOPS_ERR_OUT_OF_BOUNDS ''String exceeds maximum length'' st))"
proof -
  have gen: "bounded_len z f (Some (take (Suc (unat maxLen)) xs)) maxLen True st
               = bounded_len z f (Some xs) maxLen True st
     \<and> (z \<in> set (take (Suc (unat maxLen)) xs) \<longrightarrow>
          bounded_len z f (Some xs) maxLen True st
            = Some (Some (of_nat (length (str_of z xs))), st))
     \<and> ((\<exists>n st1. bounded_len z f (Some xs) maxLen True st = Some (Some n, st1)) \<longrightarrow>
          z \<in> set (take (Suc (unat maxLen)) xs))
     \<and> (z \<notin> set (take (Suc (unat maxLen)) xs) \<and> unat maxLen < length xs \<longrightarrow>
          bounded_len z f (Some xs) maxLen True st =
            Some (None, SetError SAFEOPS_ERR_OUT_OF_BOUNDS ''String exceeds maximum length'' st))"
    for z :: "'a" and f xs
  proof -
    have le: "length (str_of z xs) \<le> length xs" by (rule str_of_length_le)
    have "bounded_len z f (Some (take (Suc (unat maxLen)) xs)) maxLen True st
            = bounded_len z f (Some xs) maxLen True st"
      by (rule bounded_len_take)
    moreover have "z \<in> set (take (Suc (unat maxLen)) xs) \<longrightarrow>
          bounded_len z f (Some xs) maxLen True st
            = Some (Some (of_nat (length (str_of z xs))), st)"
      by (simp add: bounded_len_eq z_in_take_iff)
    moreover have "(\<exists>n st1. bounded_len z f (Some xs) maxLen True st = Some (Some n, st1)) \<longrightarrow>
          z \<in> set (take (Suc (unat maxLen)) xs)"
      by (simp add: bounded_len_eq z_in_take_iff split: if_splits)
    moreover have "z \<notin> set (take (Suc (unat maxLen)) xs) \<and> unat maxLen < length xs \<longrightarrow>
          bounded_len z f (Some xs) maxLen True st =
            Some (None, SetError SAFEOPS_ERR_OUT_OF_BOUNDS ''String exceeds maximum length'' st)"
      using le by (auto simp: bounded_len_eq z_in_take_iff)
    ultimately show ?thesis by blast
  qed
  show ?thesis
    unfolding SafeStrLen_def SafeWStrLen_def
    using gen [of NUL "''SafeStrLen''" s] gen [of 0 "''SafeWStrLen''" ws] by blast
qed

theorem bounded_length_amended_witness:
  "NUL \<in> set (take (Suc (unat (5 :: size_t))) (''ab'' @ [NUL, CHR ''c'']))
   \<and> SafeStrLen (Some (''ab'' @ [NUL, CHR ''c''])) 5 True st0 = Some (Some 2, st0)
   \<and> NUL \<notin> set (take (Suc (unat (1 :: size_t))) ''abc'') \<and> unat (1 :: size_t) < length ''abc''
   \<and> SafeStrLen (Some ''abc'') 1 True st0 =
        Some (None, SetError SAFEOPS_ERR_OUT_OF_BOUNDS ''String exceeds maximum length'' st0)
   \<and> (0 :: wchar_t) \<in> set (take (Suc (unat (5 :: size_t))) [7, 0, 9])
   \<and> SafeWStrLen (Some [7, 0, 9]) 5 True st0 = Some (Some 1, st0)
   \<and> (0 :: wchar_t) \<notin> set (take (Suc (unat (1 :: size_t))) [7, 8, 9])
   \<and> unat (1 :: size_t) < length [7 :: wchar_t, 8, 9]
   \<and> SafeWStrLen (Some [7, 8, 9]) 1 True st0 =
        Some (None, SetError SAFEOPS_ERR_OUT_OF_BOUNDS ''String exceeds maximum length'' st0)"
  using bounded_length_amended [of 5 "''ab'' @ [NUL, CHR ''c'']" st0 "[7, 0, 9]"]
    bounded_length_amended [of 1 "''abc''" st0 "[7, 8, 9]"]
  by (simp add: str_of_def)

subsection \<open>Search\<close>

text \<open>
  C3 as stated fails: \<^verbatim>\<open>strstr\<close> searches the haystack up to its terminator, whatever
  \<open>haystackLen\<close> says. The needle \<^verbatim>\<open>XY\<close> does not occur in the first 3 bytes of
  \<^verbatim>\<open>abcdXY\<close>, yet the position returned for \<open>haystackLen = 3\<close> is 4, not 3.
\<close>

theorem SafeStrFind_beyond_haystackLen:
  "c_strstr (take 3 (''abcdXY'' @ [NUL])) ''XY'' = None
   \<and> SafeStrFind (Some (''abcdXY'' @ [NUL])) 3 (Some (''XY'' @ [NUL])) True st0
       = Some (Some 4, st0)"
  by (simp add: SafeStrFind_def eval_defs)

text \<open>
  C3, amended: for a terminated haystack whose string has exactly \<open>haystackLen\<close>
  characters, and a terminated needle. \<open>SafeStrFind\<close> fails with
  \<open>SAFEOPS_ERR_INVALID_PARAM\<close> exactly when the needle is empty or longer than
  \<open>haystackLen\<close>. Otherwise it succeeds; the position is \<open>haystackLen\<close> exactly when the
  needle occurs nowhere in the first \<open>haystackLen\<close> bytes, and otherwise it is the offset
  of the first occurrence.
\<close>

theorem SafeStrFind_amended:
  assumes "NUL \<in> set h" and "length (c_str h) = unat haystackLen" and "NUL \<in> set n"
  shows "(c_str n = [] \<or> unat haystackLen < length (c_str n) \<longrightarrow>
            SafeStrFind (Some h) haystackLen (Some n) True st =
              Some (None, SetError SAFEOPS_ERR_INVALID_PARAM ''Invalid needle length'' st))
       \<and> (c_str n \<noteq> [] \<and> length (c_str n) \<le> unat haystackLen \<longrightarrow>
            (\<exists>pos. SafeStrFind (Some h) haystackLen (Some n) True st = Some (Some pos, st)
               \<and> (pos = haystackLen \<longleftrightarrow>
                    (\<forall>i. \<not> occurs_at (take (unat haystackLen) h) (c_str n) i))
               \<and> (pos \<noteq> haystackLen \<longrightarrow>
                    occurs_at (take (unat haystackLen) h) (c_str n) (unat pos)
                    \<and> (\<forall>j<unat pos. \<not> occurs_at (take (unat haystackLen) h) (c_str n) j))))"
proof -
  let ?nd = "c_str n" and ?hay = "take (unat haystackLen) h"
  have hay: "c_str h = ?hay"
    using assms(2) takeWhile_eq_take [of "\<lambda>c. c \<noteq> NUL" h] by (simp add: str_of_def)
  have lhay: "length ?hay = unat haystackLen" using hay assms(2) by simp
  have bad: "SafeStrFind (Some h) haystackLen (Some n) True st =
               Some (None, SetError SAFEOPS_ERR_INVALID_PARAM ''Invalid needle length'' st)"
    if "?nd = [] \<or> unat haystackLen < length ?nd"
    using that assms(3) by (auto simp: SafeStrFind_def c_strlen_def)
  have good: "\<exists>pos. SafeStrFind (Some h) haystackLen (Some n) True st = Some (Some pos, st)
               \<and> (pos = haystackLen \<longleftrightarrow> (\<forall>i. \<not> occurs_at ?hay ?nd i))
               \<and> (pos \<noteq> haystackLen \<longrightarrow>
                    occurs_at ?hay ?nd (unat pos) \<and> (\<forall>j<unat pos. \<not> occurs_at ?hay ?nd j))"
    if ne: "?nd \<noteq> []" and le: "length ?nd \<le> unat haystackLen"
  proof (cases "c_strstr ?hay ?nd")
    case None
    from c_strstr_None [OF ne None, of "[]"] have no: "\<forall>i. \<not> occurs_at ?hay ?nd i" by simp
    have "SafeStrFind (Some h) haystackLen (Some n) True st = Some (Some haystackLen, st)"
      using None ne le assms(1,3) hay by (simp add: SafeStrFind_def c_strlen_def)
    with no show ?thesis by simp
  next
    case (Some i)
    from c_strstr_Some [OF ne Some, of "[]"]
    have i: "i + length ?nd \<le> length ?hay" "occurs_at ?hay ?nd i"
      "\<forall>j<i. \<not> occurs_at ?hay ?nd j" by auto
    have "0 < length ?nd" using ne by simp
    with i(1) lhay have ilt: "i < unat haystackLen" by linarith
    then have un: "unat (of_nat i :: size_t) = i"
      by (intro le_unat_uoi [of _ haystackLen]) simp
    with ilt have neq: "(of_nat i :: size_t) \<noteq> haystackLen" by auto
    have "SafeStrFind (Some h) haystackLen (Some n) True st = Some (Some (of_nat i), st)"
      using Some ne le assms(1,3) hay by (simp add: SafeStrFind_def c_strlen_def)
    with i un neq show ?thesis by auto
  qed
  from bad good show ?thesis by blast
qed

theorem SafeStrFind_amended_witness:
  "NUL \<in> set (''Hello, World!'' @ [NUL])
   \<and> length (c_str (''Hello, World!'' @ [NUL])) = unat (13 :: size_t)
   \<and> NUL \<in> set (''World'' @ [NUL])
   \<and> c_str (''World'' @ [NUL]) \<noteq> []
   \<and> length (c_str (''World'' @ [NUL])) \<le> unat (13 :: size_t)
   \<and> SafeStrFind (Some (''Hello, World!'' @ [NUL])) 13 (Some (''World'' @ [NUL])) True st0
       = Some (Some 7, st0)
   \<and> occurs_at (take (unat (13 :: size_t)) (''Hello, World!'' @ [NUL]))
        (c_str (''World'' @ [NUL])) (unat (7 :: size_t))
   \<and> SafeStrFind (Some (''Hello, World!'' @ [NUL])) 13 (Some [NUL]) True st0
       = Some (None, SetError SAFEOPS_ERR_INVALID_PARAM ''Invalid needle length'' st0)"
  using SafeStrFind_amended [of "''Hello, World!'' @ [NUL]" 13 "''World'' @ [NUL]" st0]
    SafeStrFind_amended [of "''Hello, World!'' @ [NUL]" 13 "[NUL]" st0]
  by (simp add: SafeStrFind_def eval_defs occurs_at_def)

subsection \<open>Replace: the algorithm\<close>

lemmas replace_eval = SafeStrReplace_def eval_defs count_loop.simps build_loop.simps
  SafeMalloc_def c_malloc_def SafeFree_def c_free_def heap_used_def fresh_addr_def SIZE_MAX_def

lemma spec_finalLength_exact:
  "old \<noteq> [] \<Longrightarrow>
   spec_finalLength (length s) (count_occurrences s old) (length new) (length old)
     = int (length (replace_all s old new))"
proof -
  assume "old \<noteq> []"
  then have "int (length (replace_all s old new) + count_occurrences s old * length old)
               = int (length s + count_occurrences s old * length new)"
    using replace_all_length [of old s new] by simp
  then show ?thesis by (simp add: spec_finalLength_def algebra_simps)
qed

text \<open>
  The steps of \<open>SafeStrReplace\<close> on terminated buffers, against the specification's
  formula as an exact integer. An empty \<open>oldStr\<close> fails with
  \<open>SAFEOPS_ERR_INVALID_PARAM\<close>; the counting scan returns the number of non-overlapping
  occurrences; a count of 0 past the capacity check succeeds with an untouched buffer and
  the original length. The capacity check agrees with the formula as long as the exact
  \<open>finalLength\<close> fits \<^verbatim>\<open>size_t\<close>: only then is the failure with
  \<open>SAFEOPS_ERR_OUT_OF_BOUNDS\<close> derived here.
\<close>

lemma SafeStrReplace_steps_in_range:
  assumes "NUL \<in> set b" and "NUL \<in> set ob" and "NUL \<in> set nb"
  shows "(c_str ob = [] \<longrightarrow>
            SafeStrReplace (Some b) strSize (Some ob) (Some nb) True st =
              Some (None, Some b,
                    SetError SAFEOPS_ERR_INVALID_PARAM ''Empty string to replace'' st))
       \<and> (c_str ob \<noteq> [] \<longrightarrow>
            count_loop (c_str b) (c_str ob) 0 0
              = Some (of_nat (count_occurrences (c_str b) (c_str ob)))
          \<and> (uint strSize
                 \<le> spec_finalLength (length (c_str b)) (count_occurrences (c_str b) (c_str ob))
                      (length (c_str nb)) (length (c_str ob))
               \<and> spec_finalLength (length (c_str b)) (count_occurrences (c_str b) (c_str ob))
                      (length (c_str nb)) (length (c_str ob)) < 2 ^ 64 \<longrightarrow>
               SafeStrReplace (Some b) strSize (Some ob) (Some nb) True st =
                 Some (None, Some b,
                       SetError SAFEOPS_ERR_OUT_OF_BOUNDS
                         ''Replacement would overflow buffer'' st))
          \<and> (spec_finalLength (length (c_str b)) (count_occurrences (c_str b) (c_str ob))
                 (length (c_str nb)) (length (c_str ob)) < uint strSize
               \<and> count_occurrences (c_str b) (c_str ob) = 0 \<longrightarrow>
               SafeStrReplace (Some b) strSize (Some ob) (Some nb) True st =
                 Some (Some (of_nat (length (c_str b))), Some b, st)))"
proof -
  let ?s = "c_str b" and ?old = "c_str ob" and ?new = "c_str nb"
  let ?cnt = "count_occurrences ?s ?old"
  let ?R = "replace_all ?s ?old ?new"
  let ?F = "spec_finalLength (length ?s) ?cnt (length ?new) (length ?old)"
  have empty: "SafeStrReplace (Some b) strSize (Some ob) (Some nb) True st =
                 Some (None, Some b,
                       SetError SAFEOPS_ERR_INVALID_PARAM ''Empty string to replace'' st)"
    if "?old = []"
    using that assms by (simp add: SafeStrReplace_def Let_def)
  have cl: "count_loop ?s ?old 0 0 = Some (of_nat ?cnt)" if "?old \<noteq> []"
    using count_loop_eq [OF that, of 0 ?s 0] by simp
  have oob: "SafeStrReplace (Some b) strSize (Some ob) (Some nb) True st =
               Some (None, Some b,
                     SetError SAFEOPS_ERR_OUT_OF_BOUNDS ''Replacement would overflow buffer'' st)"
    if ne: "?old \<noteq> []" and ge: "uint strSize \<le> ?F" and fits: "?F < 2 ^ 64"
  proof -
    have F: "?F = int (length ?R)" using ne by (rule spec_finalLength_exact)
    from fits have "int (length ?R) < 2 ^ 64" unfolding F .
    then have "length ?R < 2 ^ 64"
      by (simp only: of_nat_less_numeral_power_cancel_iff)
    then have un: "unat (of_nat (length ?R) :: size_t) = length ?R"
      by (simp add: unat_of_nat)
    from ge have "unat strSize \<le> length ?R"
      unfolding F by (simp only: uint_nat of_nat_le_iff)
    then have "strSize \<le> (of_nat (length ?R) :: size_t)"
      using un by (simp add: word_le_nat_alt)
    then show ?thesis using assms ne by (intro SafeStrReplace_oob)
  qed
  have zero: "SafeStrReplace (Some b) strSize (Some ob) (Some nb) True st =
                Some (Some (of_nat (length ?s)), Some b, st)"
    if ne: "?old \<noteq> []" and lt: "?F < uint strSize" and c0: "?cnt = 0"
  proof -
    have F: "?F = int (length ?R)" using ne by (rule spec_finalLength_exact)
    from lt have l: "length ?R < unat strSize"
      unfolding F by (simp only: uint_nat of_nat_less_iff)
    then have "unat (of_nat (length ?R) :: size_t) = length ?R"
      by (intro le_unat_uoi [of _ strSize]) simp
    with l have "(of_nat (length ?R) :: size_t) < strSize"
      by (simp add: word_less_nat_alt)
    moreover have "(of_nat ?cnt :: size_t) = 0" using c0 by simp
    ultimately show ?thesis
      using assms ne by (intro SafeStrReplace_zero)
  qed
  from empty cl oob zero show ?thesis by blast
qed

text \<open>
  A buffer of \<open>n\<close> equal characters in which each character is replaced by a string of
  \<open>m\<close> characters: the count is \<open>n\<close> and the exact final length is \<open>n * m\<close>.
\<close>

lemma str_of_replicate: "a \<noteq> z \<Longrightarrow> str_of z (replicate n a @ z # rest) = replicate n a"
  by (induction n) (simp_all add: str_of_def)

lemma count_occurrences_replicate: "count_occurrences (replicate n a) [a] = n"
proof (induction n)
  case 0
  show ?case by (subst count_occurrences.simps) simp
next
  case (Suc n)
  then show ?case by (subst count_occurrences.simps) simp
qed

lemma replace_all_replicate_length:
  "length (replace_all (replicate n a) [a] new) = n * length new"
  using replace_all_length [of "[a]" "replicate n a" new]
  by (simp add: count_occurrences_replicate)

lemma c_strstr_replicate: "0 < n \<Longrightarrow> c_strstr (replicate n a) [a] = Some 0"
  by (cases n) simp_all

text \<open>
  The building loop on such a buffer leaves the scratch buffer at the second replacement
  when two replacements do not fit in it.
\<close>

lemma build_loop_overrun:
  assumes n: "2 \<le> n" and fit: "length new \<le> length t"
    and over: "length t < length new + length new"
  shows "build_loop (replicate n a) [a] new 0 t 0 = None"
proof -
  let ?s = "replicate n a"
  have s0: "c_strstr ?s [a] = Some 0"
    using n by (simp add: c_strstr_replicate)
  have s1: "c_strstr (replicate (n - Suc 0) a) [a] = Some 0"
    using n by (simp add: c_strstr_replicate)
  have w0: "write_at t 0 [] = Some t" by (simp add: write_at_def)
  define t2 where "t2 = take 0 t @ new @ drop (0 + length new) t"
  have w1: "write_at t 0 new = Some t2"
    using fit by (simp add: write_at_def t2_def)
  have l2: "length t2 = length t" using fit by (simp add: t2_def)
  have w2: "write_at t2 (length new) [] = Some t2"
    using fit l2 by (simp add: write_at_def)
  have w3: "write_at t2 (length new) new = None"
    using over l2 by (simp add: write_at_def)
  have step2: "build_loop ?s [a] new (Suc 0) t2 (length new) = None"
    by (subst build_loop.simps) (simp add: s1 w2 w3)
  show ?thesis
    by (subst build_loop.simps) (simp add: s0 w0 w1 step2)
qed

text \<open>
  When \<open>n * m\<close> wraps to a value below \<open>strSize\<close>, the capacity check of
  \<open>SafeStrReplace\<close> passes, the scratch buffer of \<open>strSize\<close> bytes is allocated, and the
  second \<^verbatim>\<open>memcpy\<close> of the replacement writes past its end.
\<close>

lemma SafeStrReplace_wrapped:
  assumes a: "a \<noteq> NUL" and c: "c \<noteq> NUL" and n: "2 \<le> n"
    and wrap: "(of_nat (n * m) :: size_t) < strSize"
    and cnt: "(of_nat n :: size_t) \<noteq> 0"
    and mem: "SafeMalloc strSize st = (Some p, st1)"
    and fit: "m \<le> unat strSize" and over: "unat strSize < m + m"
  shows "SafeStrReplace (Some (replicate n a @ [NUL])) strSize (Some [a, NUL])
           (Some (replicate m c @ [NUL])) True st = None"
proof -
  have s: "c_str (replicate n a @ [NUL]) = replicate n a"
    using a by (rule str_of_replicate)
  have old: "c_str [a, NUL] = [a]"
    using a by (simp add: str_of_def)
  have new: "c_str (replicate m c @ [NUL]) = replicate m c"
    using c by (rule str_of_replicate)
  have cl: "count_loop (replicate n a) [a] 0 0 = Some (of_nat n)"
    using count_loop_eq [of "[a]" 0 "replicate n a" 0]
    by (simp add: count_occurrences_replicate)
  have fl: "(of_nat (length (replicate n a)) + of_nat n
               * (of_nat (length (replicate m c)) - of_nat (length [a])) :: size_t)
            = of_nat (n * m)"
    using final_length_word [of "[a]" "replicate n a" "replicate m c"]
    by (simp add: count_occurrences_replicate replace_all_replicate_length)
  have bl: "build_loop (replicate n a) [a] (replicate m c) 0 (replicate (unat strSize) NUL) 0
              = None"
    using n fit over by (intro build_loop_overrun) simp_all
  have nle: "\<not> strSize \<le> (of_nat (n * m) :: size_t)" using wrap by simp
  show ?thesis
    using cl fl bl nle cnt mem
    by (simp add: SafeStrReplace_def s old new Let_def)
qed

text \<open>
  The same on a buffer of \<open>2^32\<close> characters \<open>a\<close> (an object of \<open>2^32 + 1\<close> bytes, passed
  with that capacity) in which \<open>a\<close> is replaced by \<open>2^32\<close> characters \<open>b\<close>, with 8 GiB
  of memory to allocate from.
\<close>

lemma SafeStrReplace_wrapped_input:
  "SafeStrReplace (Some (replicate 4294967296 (CHR ''a'') @ [NUL])) 4294967297
      (Some [CHR ''a'', NUL]) (Some (replicate 4294967296 (CHR ''b'') @ [NUL])) True
      (st0\<lparr>heap_limit := 8589934592\<rparr>) = None"
proof -
  have w: "(of_nat (4294967296 * 4294967296) :: size_t) < 4294967297" by simp
  have c: "(of_nat 4294967296 :: size_t) \<noteq> 0" by simp
  have m: "SafeMalloc 4294967297 (st0\<lparr>heap_limit := 8589934592\<rparr>)
             = (Some 1, st0\<lparr>heap_limit := 8589934592, heap := [(1, 4294967297)]\<rparr>)"
    by (simp add: SafeMalloc_def c_malloc_def heap_used_def fresh_addr_def SIZE_MAX_def st0_def)
  have f: "4294967296 \<le> unat (4294967297 :: size_t)" by simp
  have ov: "unat (4294967297 :: size_t) < 4294967296 + 4294967296" by simp
  show ?thesis
    by (rule SafeStrReplace_wrapped [OF _ _ _ w c m f ov]) simp_all
qed

lemma wrapped_input_strings:
  "c_str (replicate 4294967296 (CHR ''a'') @ [NUL]) = replicate 4294967296 (CHR ''a'')"
  "c_str [CHR ''a'', NUL] = [CHR ''a'']"
  "c_str (replicate 4294967296 (CHR ''b'') @ [NUL]) = replicate 4294967296 (CHR ''b'')"
  by (simp_all add: str_of_replicate) (simp add: str_of_def)

text \<open>
  C4. The code does not follow the specified algorithm on every terminated buffer:
  \<^verbatim>\<open>finalLen\<close> is computed in \<^verbatim>\<open>size_t\<close> arithmetic with no overflow check. On the buffer
  of \<open>2^32\<close> characters \<open>a\<close> with capacity \<open>2^32 + 1\<close>, replacing \<open>a\<close> by \<open>2^32\<close>
  characters \<open>b\<close>: the count is \<open>2^32\<close>, the exact \<open>finalLength\<close> is \<open>2^64\<close>, far above
  the capacity, yet the value the code computes is 0, the capacity check passes and the
  call has no defined result, because the building loop writes past the end of the
  scratch buffer, where the specification asks for a failure with
  \<open>SAFEOPS_ERR_OUT_OF_BOUNDS\<close> before any byte is written.
\<close>

theorem SafeStrReplace_finalLen_wraps:
  "length (c_str (replicate 4294967296 (CHR ''a'') @ [NUL])) = 4294967296
   \<and> length (c_str [CHR ''a'', NUL]) = 1
   \<and> length (c_str (replicate 4294967296 (CHR ''b'') @ [NUL])) = 4294967296
   \<and> count_occurrences (c_str (replicate 4294967296 (CHR ''a'') @ [NUL])) (c_str [CHR ''a'', NUL])
       = 4294967296
   \<and> spec_finalLength 4294967296 4294967296 4294967296 1 = 18446744073709551616
   \<and> uint (4294967297 :: size_t) \<le> spec_finalLength 4294967296 4294967296 4294967296 1
   \<and> (4294967296 + 4294967296 * (4294967296 - 1) :: size_t) = 0
   \<and> SafeStrReplace (Some (replicate 4294967296 (CHR ''a'') @ [NUL])) 4294967297
        (Some [CHR ''a'', NUL]) (Some (replicate 4294967296 (CHR ''b'') @ [NUL])) True
        (st0\<lparr>heap_limit := 8589934592\<rparr>) = None
   \<and> SafeStrReplace (Some (replicate 4294967296 (CHR ''a'') @ [NUL])) 4294967297
        (Some [CHR ''a'', NUL]) (Some (replicate 4294967296 (CHR ''b'') @ [NUL])) True
        (st0\<lparr>heap_limit := 8589934592\<rparr>)
       \<noteq> Some (None, Some (replicate 4294967296 (CHR ''a'') @ [NUL]),
               SetError SAFEOPS_ERR_OUT_OF_BOUNDS ''Replacement would overflow buffer''
                 (st0\<lparr>heap_limit := 8589934592\<rparr>))"
proof -
  have l: "length (c_str (replicate 4294967296 (CHR ''a'') @ [NUL])) = 4294967296"
    "length (c_str [CHR ''a'', NUL]) = 1"
    "length (c_str (replicate 4294967296 (CHR ''b'') @ [NUL])) = 4294967296"
    by (simp_all add: wrapped_input_strings)
  have c: "count_occurrences (c_str (replicate 4294967296 (CHR ''a'') @ [NUL]))
             (c_str [CHR ''a'', NUL]) = 4294967296"
    by (simp add: wrapped_input_strings count_occurrences_replicate)
  have f: "spec_finalLength 4294967296 4294967296 4294967296 1 = 18446744073709551616"
    "uint (4294967297 :: size_t) \<le> spec_finalLength 4294967296 4294967296 4294967296 1"
    by (simp_all add: spec_finalLength_def)
  have w: "(4294967296 + 4294967296 * (4294967296 - 1) :: size_t) = 0" by simp
  note r = SafeStrReplace_wrapped_input
  have r': "SafeStrReplace (Some (replicate 4294967296 (CHR ''a'') @ [NUL])) 4294967297
        (Some [CHR ''a'', NUL]) (Some (replicate 4294967296 (CHR ''b'') @ [NUL])) True
        (st0\<lparr>heap_limit := 8589934592\<rparr>)
       \<noteq> Some (None, Some (replicate 4294967296 (CHR ''a'') @ [NUL]),
               SetError SAFEOPS_ERR_OUT_OF_BOUNDS ''Replacement would overflow buffer''
                 (st0\<lparr>heap_limit := 8589934592\<rparr>))"
    unfolding r by simp
  show ?thesis
    by (intro conjI) (fact l c f w r r')+
qed

subsection \<open>Replace: deletion\<close>

text \<open>
  C9 as stated fails: with one occurrence to delete and
  \<open>originalLength - count * oldLength = 2 < 4 = bufferCapacity\<close>, the call still fails
  when the allocator cannot provide the scratch buffer.
\<close>

theorem SafeStrReplace_deletion_no_memory:
  "count_occurrences (c_str (''aXb'' @ [NUL])) (c_str (''X'' @ [NUL])) = 1
   \<and> length (c_str (''aXb'' @ [NUL])) - 1 * length (c_str (''X'' @ [NUL])) < unat (4 :: size_t)
   \<and> SafeStrReplace (Some (''aXb'' @ [NUL])) 4 (Some (''X'' @ [NUL])) (Some [NUL]) True
        (st0\<lparr>heap_limit := 0\<rparr>)
       = Some (None, Some (''aXb'' @ [NUL]),
               st0\<lparr>heap_limit := 0, g_lastError := SAFEOPS_ERR_ALLOCATION_FAILED\<rparr>)"
  by (simp add: replace_eval count_occurrences.simps)

text \<open>
  C9, amended. For a terminated buffer that fits the address space, a non-empty
  \<open>oldStr\<close> with \<open>count\<close> occurrences and an empty \<open>newStr\<close>: \<open>count * oldLength\<close> never
  exceeds \<open>originalLength\<close>, and with \<open>n = originalLength - count * oldLength\<close> the call
  fails with \<open>SAFEOPS_ERR_OUT_OF_BOUNDS\<close> when \<open>n \<ge> strSize\<close>; when \<open>n < strSize\<close> it
  succeeds without change for \<open>count = 0\<close>, and for \<open>count > 0\<close> it succeeds exactly when
  \<open>SafeMalloc\<close> provides the scratch buffer: then every counted occurrence is removed,
  the string is terminated, the bytes behind the terminator are untouched, the length
  reported is \<open>n\<close>, and the state is as before the call.
\<close>

theorem SafeStrReplace_deletion:
  assumes "NUL \<in> set b" and "NUL \<in> set ob" and "c_str ob \<noteq> []"
    and "NUL \<in> set nb" and "c_str nb = []"
    and "length b \<le> unat SIZE_MAX"
  shows "count_occurrences (c_str b) (c_str ob) * length (c_str ob) \<le> length (c_str b)
     \<and> length (replace_all (c_str b) (c_str ob) [])
         = length (c_str b) - count_occurrences (c_str b) (c_str ob) * length (c_str ob)
     \<and> (length (c_str b) - count_occurrences (c_str b) (c_str ob) * length (c_str ob)
           \<ge> unat strSize \<longrightarrow>
         SafeStrReplace (Some b) strSize (Some ob) (Some nb) True st =
           Some (None, Some b,
                 SetError SAFEOPS_ERR_OUT_OF_BOUNDS ''Replacement would overflow buffer'' st))
     \<and> (length (c_str b) - count_occurrences (c_str b) (c_str ob) * length (c_str ob)
           < unat strSize \<and> count_occurrences (c_str b) (c_str ob) = 0 \<longrightarrow>
         SafeStrReplace (Some b) strSize (Some ob) (Some nb) True st =
           Some (Some (of_nat (length (c_str b))), Some b, st))
     \<and> (length (c_str b) - count_occurrences (c_str b) (c_str ob) * length (c_str ob)
           < unat strSize \<and> count_occurrences (c_str b) (c_str ob) \<noteq> 0 \<longrightarrow>
         (\<forall>st1. SafeMalloc strSize st = (None, st1) \<longrightarrow>
            SafeStrReplace (Some b) strSize (Some ob) (Some nb) True st =
              Some (None, Some b, st1))
         \<and> (\<forall>p st1. SafeMalloc strSize st = (Some p, st1) \<longrightarrow>
            SafeStrReplace (Some b) strSize (Some ob) (Some nb) True st =
              Some (Some (of_nat (length (c_str b)
                      - count_occurrences (c_str b) (c_str ob) * length (c_str ob))),
                    Some (replace_all (c_str b) (c_str ob) [] @
                          NUL # drop (length (c_str b)
                      - count_occurrences (c_str b) (c_str ob) * length (c_str ob) + 1) b),
                    st)))"
proof -
  let ?s = "c_str b" and ?old = "c_str ob"
  let ?cnt = "count_occurrences ?s ?old"
  let ?R = "replace_all ?s ?old []"
  let ?n = "length ?s - ?cnt * length ?old"
  have len: "length ?R + ?cnt * length ?old = length ?s"
    using replace_all_length [OF assms(3), of ?s "[]"] by simp
  then have le: "?cnt * length ?old \<le> length ?s" and R: "length ?R = ?n" by linarith+
  have slt: "length ?s < length b" using assms(1) by (simp add: str_of_length_less_iff)
  have "unat SIZE_MAX < 2 ^ LENGTH(64)" by (rule unsigned_less)
  with slt assms(6) have s64: "length ?s < 2 ^ 64" by simp
  have "1 \<le> length ?old" using assms(3) by (cases ?old) simp_all
  then have "?cnt * 1 \<le> ?cnt * length ?old" by (rule mult_le_mono2)
  with le s64 have c64: "?cnt < 2 ^ 64" by linarith
  have n64: "?n < 2 ^ 64" using s64 by linarith
  have un: "unat (of_nat ?n :: size_t) = ?n" using n64 by (simp add: unat_of_nat)
  have uc: "unat (of_nat ?cnt :: size_t) = ?cnt" using c64 by (simp add: unat_of_nat)
  have cw: "(of_nat ?cnt :: size_t) = 0 \<longleftrightarrow> ?cnt = 0"
  proof
    assume "(of_nat ?cnt :: size_t) = 0"
    then have "unat (of_nat ?cnt :: size_t) = 0" by simp
    with uc show "?cnt = 0" by simp
  next
    assume "?cnt = 0"
    then show "(of_nat ?cnt :: size_t) = 0" by simp
  qed
  have Rnew: "replace_all ?s ?old (c_str nb) = ?R" using assms(5) by simp
  have oob: "SafeStrReplace (Some b) strSize (Some ob) (Some nb) True st =
           Some (None, Some b,
                 SetError SAFEOPS_ERR_OUT_OF_BOUNDS ''Replacement would overflow buffer'' st)"
    if "?n \<ge> unat strSize"
  proof -
    have "(of_nat (length (replace_all ?s ?old (c_str nb))) :: size_t) \<ge> strSize"
      using that un unfolding Rnew R by (simp add: word_le_nat_alt)
    then show ?thesis using assms(1,2,4,3) by (intro SafeStrReplace_oob)
  qed
  have wlt: "(of_nat (length (replace_all ?s ?old (c_str nb))) :: size_t) < strSize"
    if "?n < unat strSize"
    using that un unfolding Rnew R by (simp add: word_less_nat_alt)
  have zero: "SafeStrReplace (Some b) strSize (Some ob) (Some nb) True st =
           Some (Some (of_nat (length ?s)), Some b, st)"
    if "?n < unat strSize" "?cnt = 0"
    using assms(1,2,4,3) wlt [OF that(1)] that(2) by (intro SafeStrReplace_zero) simp_all
  have nomem: "SafeStrReplace (Some b) strSize (Some ob) (Some nb) True st =
              Some (None, Some b, st1)"
    if "?n < unat strSize" "?cnt \<noteq> 0" "SafeMalloc strSize st = (None, st1)" for st1
    using assms(1,2,4,3) wlt [OF that(1)] that(2,3) cw by (intro SafeStrReplace_nomem) simp_all
  have ok: "SafeStrReplace (Some b) strSize (Some ob) (Some nb) True st =
              Some (Some (of_nat ?n), Some (?R @ NUL # drop (?n + 1) b), st)"
    if "?n < unat strSize" "?cnt \<noteq> 0" "SafeMalloc strSize st = (Some p, st1)" for p st1
  proof -
    have "length (replace_all ?s ?old (c_str nb)) < unat strSize"
      using that(1) unfolding Rnew R .
    moreover have "length (replace_all ?s ?old (c_str nb)) < length b"
      using slt unfolding Rnew R by linarith
    moreover have "(of_nat ?cnt :: size_t) \<noteq> 0" using that(2) cw by simp
    ultimately show ?thesis
      using SafeStrReplace_done [OF assms(1,2,4,3) _ _ _ that(3)] unfolding Rnew R by simp
  qed
  show ?thesis
    apply (intro conjI impI allI)
    subgoal by (rule le)
    subgoal by (rule R)
    subgoal by (rule oob)
    subgoal by (elim conjE, rule zero, assumption+)
    subgoal by (elim conjE, rule nomem, assumption+)
    subgoal by (elim conjE, rule ok, assumption+)
    done
qed

theorem SafeStrReplace_deletion_witness:
  "NUL \<in> set (''aXbXc'' @ [NUL]) \<and> NUL \<in> set (''X'' @ [NUL]) \<and> c_str (''X'' @ [NUL]) \<noteq> []
   \<and> NUL \<in> set [NUL] \<and> c_str [NUL] = [] \<and> length (''aXbXc'' @ [NUL]) \<le> unat SIZE_MAX
   \<and> count_occurrences (c_str (''aXbXc'' @ [NUL])) (c_str (''X'' @ [NUL])) = 2
   \<and> length (c_str (''aXbXc'' @ [NUL])) - 2 * length (c_str (''X'' @ [NUL])) = 3
   \<and> SafeStrReplace (Some (''aXbXc'' @ [NUL])) 2 (Some (''X'' @ [NUL])) (Some [NUL]) True st0
       = Some (None, Some (''aXbXc'' @ [NUL]),
               SetError SAFEOPS_ERR_OUT_OF_BOUNDS ''Replacement would overflow buffer'' st0)
   \<and> SafeMalloc 6 st0 = (Some 1, st0\<lparr>heap := [(1, 6)]\<rparr>)
   \<and> SafeStrReplace (Some (''aXbXc'' @ [NUL])) 6 (Some (''X'' @ [NUL])) (Some [NUL]) True st0
       = Some (Some 3, Some (''abc'' @ [NUL, CHR ''c'', NUL]), st0)
   \<and> SafeMalloc 6 (st0\<lparr>heap_limit := 0\<rparr>)
       = (None, st0\<lparr>heap_limit := 0, g_lastError := SAFEOPS_ERR_ALLOCATION_FAILED\<rparr>)
   \<and> SafeStrReplace (Some (''aXbXc'' @ [NUL])) 6 (Some (''X'' @ [NUL])) (Some [NUL]) True
        (st0\<lparr>heap_limit := 0\<rparr>)
       = Some (None, Some (''aXbXc'' @ [NUL]),
               st0\<lparr>heap_limit := 0, g_lastError := SAFEOPS_ERR_ALLOCATION_FAILED\<rparr>)
   \<and> NUL \<in> set (''abc'' @ [NUL]) \<and> length (''abc'' @ [NUL]) \<le> unat SIZE_MAX
   \<and> count_occurrences (c_str (''abc'' @ [NUL])) (c_str (''X'' @ [NUL])) = 0
   \<and> SafeStrReplace (Some (''abc'' @ [NUL])) 10 (Some (''X'' @ [NUL])) (Some [NUL]) True st0
       = Some (Some 3, Some (''abc'' @ [NUL]), st0)"
proof -
  have n1: "NUL \<in> set (''aXbXc'' @ [NUL])" and n2: "NUL \<in> set (''X'' @ [NUL])"
    and n3: "NUL \<in> set [NUL]" and n4: "NUL \<in> set (''abc'' @ [NUL])"
    by simp_all
  have e: "c_str [NUL] = []" and ne: "c_str (''X'' @ [NUL]) \<noteq> []"
    by (simp_all add: str_of_def)
  have s1: "length (''aXbXc'' @ [NUL]) \<le> unat SIZE_MAX"
    and s2: "length (''abc'' @ [NUL]) \<le> unat SIZE_MAX"
    by (simp_all add: unat_SIZE_MAX)
  have c2: "count_occurrences (c_str (''aXbXc'' @ [NUL])) (c_str (''X'' @ [NUL])) = 2"
    and c0: "count_occurrences (c_str (''abc'' @ [NUL])) (c_str (''X'' @ [NUL])) = 0"
    by (simp_all add: str_of_def count_occurrences.simps)
  have l: "length (c_str (''aXbXc'' @ [NUL])) - 2 * length (c_str (''X'' @ [NUL])) = 3"
    "length (c_str (''abc'' @ [NUL])) - 0 * length (c_str (''X'' @ [NUL])) = 3"
    by (simp_all add: str_of_def)
  have R: "replace_all (c_str (''aXbXc'' @ [NUL])) (c_str (''X'' @ [NUL])) [] = ''abc''"
    by (simp add: str_of_def replace_all.simps)
  have m1: "SafeMalloc 6 st0 = (Some 1, st0\<lparr>heap := [(1, 6)]\<rparr>)"
    by (simp add: SafeMalloc_def c_malloc_def heap_used_def fresh_addr_def st0_def SIZE_MAX_def)
  have m2: "SafeMalloc 6 (st0\<lparr>heap_limit := 0\<rparr>)
       = (None, st0\<lparr>heap_limit := 0, g_lastError := SAFEOPS_ERR_ALLOCATION_FAILED\<rparr>)"
    by (simp add: SafeMalloc_def c_malloc_def heap_used_def fresh_addr_def st0_def SIZE_MAX_def
        SetError_def)
  note t1 = SafeStrReplace_deletion [OF n1 n2 ne n3 e s1, of 2 st0, unfolded c2 l R]
  note t2 = SafeStrReplace_deletion [OF n1 n2 ne n3 e s1, of 6 st0, unfolded c2 l R]
  note t3 = SafeStrReplace_deletion [OF n1 n2 ne n3 e s1, of 6 "st0\<lparr>heap_limit := 0\<rparr>",
      unfolded c2 l R]
  note t4 = SafeStrReplace_deletion [OF n4 n2 ne n3 e s2, of 10 st0, unfolded c0 l]
  have r1: "SafeStrReplace (Some (''aXbXc'' @ [NUL])) 2 (Some (''X'' @ [NUL])) (Some [NUL]) True st0
       = Some (None, Some (''aXbXc'' @ [NUL]),
               SetError SAFEOPS_ERR_OUT_OF_BOUNDS ''Replacement would overflow buffer'' st0)"
    using t1 by simp
  have r2: "SafeStrReplace (Some (''aXbXc'' @ [NUL])) 6 (Some (''X'' @ [NUL])) (Some [NUL]) True st0
       = Some (Some 3, Some (''abc'' @ [NUL, CHR ''c'', NUL]), st0)"
    using t2 m1 by simp
  have r3: "SafeStrReplace (Some (''aXbXc'' @ [NUL])) 6 (Some (''X'' @ [NUL])) (Some [NUL]) True
        (st0\<lparr>heap_limit := 0\<rparr>)
       = Some (None, Some (''aXbXc'' @ [NUL]),
               st0\<lparr>heap_limit := 0, g_lastError := SAFEOPS_ERR_ALLOCATION_FAILED\<rparr>)"
    using t3 m2 by simp
  have r4: "SafeStrReplace (Some (''abc'' @ [NUL])) 10 (Some (''X'' @ [NUL])) (Some [NUL]) True st0
       = Some (Some 3, Some (''abc'' @ [NUL]), st0)"
    using t4 by (simp add: str_of_def)
  show ?thesis
    by (intro conjI) (fact n1 n2 n3 n4 e ne s1 s2 c2 c0 l m1 m2 r1 r2 r3 r4)+
qed

subsection \<open>File acquisition\<close>

lemma lowest_free_fresh: "lowest_free fds \<notin> set fds"
proof (cases "find (\<lambda>n. n \<notin> set fds) [0..<Suc (length fds)]")
  case None
  then have "set [0..<Suc (length fds)] \<subseteq> set fds"
    using find_None_iff [of "\<lambda>n. n \<notin> set fds" "[0..<Suc (length fds)]"] by blast
  then have "card (set [0..<Suc (length fds)]) \<le> card (set fds)"
    by (intro card_mono) simp_all
  moreover have "card (set [0..<Suc (length fds)]) = Suc (length fds)" by simp
  moreover have "card (set fds) \<le> length fds" by (rule card_length)
  ultimately show ?thesis by linarith
next
  case (Some n)
  then have "n \<notin> set fds" by (auto simp: find_Some_iff)
  with Some show ?thesis by (simp add: lowest_free_def)
qed

lemma open_close:
  "c_open sys path flags mode st = (Some fd, st1) \<Longrightarrow>
   fd \<notin> set (open_fds st) \<and> open_fds st1 = fd # open_fds st
   \<and> open_fds (c_close fd st1) = open_fds st \<and> g_lastError st1 = g_lastError st"
  using lowest_free_fresh [of "open_fds st"]
  by (auto simp: c_open_def c_close_def split: if_splits)

lemma open_fails:
  "c_open sys path flags mode st = (None, st1) \<Longrightarrow> st1 = st"
  by (auto simp: c_open_def split: if_splits)

lemma fopen_close:
  "c_fopen sys path mode st = (Some fd, st1) \<Longrightarrow>
   fd \<notin> set (open_fds st) \<and> open_fds st1 = fd # open_fds st
   \<and> open_fds (c_close fd st1) = open_fds st \<and> g_lastError st1 = g_lastError st"
  using lowest_free_fresh [of "open_fds st"]
  by (auto simp: c_fopen_def c_close_def split: if_splits)

lemma fopen_fails:
  "c_fopen sys path mode st = (None, st1) \<Longrightarrow> st1 = st"
  by (auto simp: c_fopen_def split: if_splits)

lemma SafeFOpen_posix_no_leak:
  assumes "SafeFOpen sys (Some filePath) (Some mode) opts st = (fp, st1)"
  shows "(fp = None \<longrightarrow>
            open_fds st1 = open_fds st \<and> g_lastError st1 = SAFEOPS_ERR_FILE_ACCESS)
       \<and> (\<forall>fd. fp = Some fd \<longrightarrow>
            fd \<notin> set (open_fds st) \<and> open_fds st1 = fd # open_fds st
            \<and> (requireRegularFile (case opts of None \<Rightarrow> defaultOpts | Some o1 \<Rightarrow> o1) \<longrightarrow>
                 os_fstat sys fd = Some S_IFREG))"
  using assms
  by (auto simp: SafeFOpen_def Let_def SetError_def S_ISREG_def
      split: prod.splits option.splits if_splits dest!: open_close open_fails)

lemma SafeFOpen_win32_no_leak:
  assumes "SafeFOpen_win32 sys (Some filePath) (Some mode) opts st = (fp, st1)"
  shows "(fp = None \<longrightarrow>
            open_fds st1 = open_fds st \<and> g_lastError st1 = SAFEOPS_ERR_FILE_ACCESS)
       \<and> (\<forall>fd. fp = Some fd \<longrightarrow>
            fd \<notin> set (open_fds st) \<and> open_fds st1 = fd # open_fds st
            \<and> (requireRegularFile (case opts of None \<Rightarrow> defaultOpts | Some o1 \<Rightarrow> o1) \<longrightarrow>
                 os_fstat sys fd = Some S_IFREG))"
  using assms
  by (auto simp: SafeFOpen_win32_def Let_def SetError_def S_ISREG_def
      split: prod.splits option.splits if_splits dest!: fopen_close fopen_fails)

text \<open>
  C7. \<open>SafeFOpen\<close> on a path and a mode, in either branch: when it returns \<^verbatim>\<open>NULL\<close>, the
  last error is \<open>SAFEOPS_ERR_FILE_ACCESS\<close> and the table of open descriptors is as before
  the call, so the descriptor obtained from the low-level open has been closed on every
  failure path; when it returns a stream, the stream wraps the one descriptor the call
  has opened, and if the options (or the defaults, for \<^verbatim>\<open>NULL\<close> options) require a
  regular file then \<^verbatim>\<open>fstat\<close> on that descriptor has reported a regular file.
\<close>

theorem SafeFOpen_no_leak:
  assumes "SafeFOpen sys (Some filePath) (Some mode) opts st = (fp, st1)
         \<or> SafeFOpen_win32 sys (Some filePath) (Some mode) opts st = (fp, st1)"
  shows "(fp = None \<longrightarrow>
            open_fds st1 = open_fds st \<and> g_lastError st1 = SAFEOPS_ERR_FILE_ACCESS)
       \<and> (\<forall>fd. fp = Some fd \<longrightarrow>
            fd \<notin> set (open_fds st) \<and> open_fds st1 = fd # open_fds st
            \<and> (requireRegularFile (case opts of None \<Rightarrow> defaultOpts | Some o1 \<Rightarrow> o1) \<longrightarrow>
                 os_fstat sys fd = Some S_IFREG))"
  using assms
proof
  assume "SafeFOpen sys (Some filePath) (Some mode) opts st = (fp, st1)"
  then show ?thesis by (rule SafeFOpen_posix_no_leak)
next
  assume "SafeFOpen_win32 sys (Some filePath) (Some mode) opts st = (fp, st1)"
  then show ?thesis by (rule SafeFOpen_win32_no_leak)
qed

lemma lowest_free_012: "lowest_free [0, Suc 0, 2] = 3"
  by (simp add: lowest_free_def upt_rec)

theorem SafeFOpen_no_leak_witness:
  "SafeFOpen (friendly_os S_IFDIR) (Some ''/tmp'') (Some ''r'') None st0
     = (None, st0\<lparr>g_lastError := SAFEOPS_ERR_FILE_ACCESS\<rparr>)
   \<and> open_fds (st0\<lparr>g_lastError := SAFEOPS_ERR_FILE_ACCESS\<rparr>) = open_fds st0
   \<and> SafeFOpen (friendly_os S_IFREG) (Some ''test.txt'') (Some ''w'') None st0
     = (Some 3, st0\<lparr>open_fds := [3, 0, 1, 2]\<rparr>)
   \<and> requireRegularFile defaultOpts
   \<and> os_fstat (friendly_os S_IFREG) 3 = Some S_IFREG
   \<and> SafeFOpen_win32 (friendly_os S_IFDIR) (Some ''/tmp'') (Some ''r'') None st0
     = (None, st0\<lparr>g_lastError := SAFEOPS_ERR_FILE_ACCESS\<rparr>)"
proof -
  have a: "SafeFOpen (friendly_os S_IFDIR) (Some ''/tmp'') (Some ''r'') None st0
     = (None, st0\<lparr>g_lastError := SAFEOPS_ERR_FILE_ACCESS\<rparr>)"
    by (simp add: SafeFOpen_def friendly_os_def c_open_def c_close_def defaultOpts_def
        SetError_def S_ISREG_def lowest_free_012 st0_def)
  have b: "SafeFOpen (friendly_os S_IFREG) (Some ''test.txt'') (Some ''w'') None st0
     = (Some 3, st0\<lparr>open_fds := [3, 0, 1, 2]\<rparr>)"
    by (simp add: SafeFOpen_def friendly_os_def c_open_def c_close_def defaultOpts_def
        SetError_def S_ISREG_def lowest_free_012 st0_def)
  have c: "SafeFOpen_win32 (friendly_os S_IFDIR) (Some ''/tmp'') (Some ''r'') None st0
     = (None, st0\<lparr>g_lastError := SAFEOPS_ERR_FILE_ACCESS\<rparr>)"
    by (simp add: SafeFOpen_win32_def friendly_os_def c_fopen_def c_close_def defaultOpts_def
        SetError_def S_ISREG_def lowest_free_012 st0_def)
  from SafeFOpen_no_leak [OF disjI1 [OF a]] SafeFOpen_no_leak [OF disjI1 [OF b]]
    SafeFOpen_no_leak [OF disjI2 [OF c]] a b c
  show ?thesis
    by (simp add: defaultOpts_def)
qed

subsection \<open>Capacity exceeded\<close>

lemma SafeStrCopy_too_long:
  assumes "NUL \<in> set src" and "unat destSize \<le> length (c_str src)"
  shows "SafeStrCopy (Some dest) destSize (Some src) st =
           Some (False, Some dest,
                 st\<lparr>errno := (if destSize = 0 then EINVAL else EOVERFLOW)\<rparr>)"
proof (cases "destSize = 0")
  case True
  then show ?thesis by (simp add: SafeStrCopy_def)
next
  case False
  then have "0 < destSize" by (simp add: word_neq_0_conv)
  with False assms show ?thesis by (simp add: SafeStrCopy_def c_strlen_def)
qed

lemma SafeStrCat_too_long:
  assumes d: "NUL \<in> set dest" and s: "NUL \<in> set src"
    and fit: "length dest + length src \<le> unat SIZE_MAX"
    and big: "unat destSize \<le> length (c_str dest) + length (c_str src)"
  shows "\<exists>msg. SafeStrCat (Some dest) destSize (Some src) st =
           Some (False, Some dest, SetError SAFEOPS_ERR_OUT_OF_BOUNDS msg st)"
proof -
  let ?kd = "length (c_str dest)" and ?ks = "length (c_str src)"
  have kd: "?kd < length dest" using d by (simp add: str_of_length_less_iff)
  have ks: "?ks < length src" using s by (simp add: str_of_length_less_iff)
  have lend: "SafeStrLen (Some dest) destSize True st =
      (if ?kd \<le> unat destSize then Some (Some (of_nat ?kd), st)
       else Some (None, SetError SAFEOPS_ERR_OUT_OF_BOUNDS ''String exceeds maximum length'' st))"
    using kd by (simp add: SafeStrLen_def bounded_len_eq)
  show ?thesis
  proof (cases "?kd \<le> unat destSize")
    case False
    with lend have "SafeStrCat (Some dest) destSize (Some src) st =
        Some (False, Some dest,
              SetError SAFEOPS_ERR_OUT_OF_BOUNDS ''String exceeds maximum length'' st)"
      by (simp add: SafeStrCat_def)
    then show ?thesis by blast
  next
    case True
    have "?ks \<le> unat SIZE_MAX" using ks fit by linarith
    then have lens: "SafeStrLen (Some src) SIZE_MAX True st = Some (Some (of_nat ?ks), st)"
      using ks by (simp add: SafeStrLen_def bounded_len_eq)
    have "?kd + ?ks \<le> unat SIZE_MAX" using kd ks fit by linarith
    then have "unat (of_nat (?kd + ?ks) :: size_t) = ?kd + ?ks"
      by (rule le_unat_uoi)
    then have "unat destSize \<le> unat (of_nat ?kd + of_nat ?ks :: size_t)"
      using big by simp
    then have "destSize \<le> (of_nat ?kd + of_nat ?ks :: size_t)"
      by (simp add: word_le_nat_alt)
    with True lend lens have "SafeStrCat (Some dest) destSize (Some src) st =
        Some (False, Some dest,
              SetError SAFEOPS_ERR_OUT_OF_BOUNDS ''Concatenation would overflow buffer'' st)"
      by (simp add: SafeStrCat_def)
    then show ?thesis by blast
  qed
qed

lemma SafeMemCopy_too_long:
  assumes "srcSize > destSize"
  shows "SafeMemCopy mem (Some d) destSize (Some s) srcSize st =
           Some (False, mem,
                 SetError SAFEOPS_ERR_OUT_OF_BOUNDS ''Source size exceeds destination buffer'' st)"
  using assms by (simp add: SafeMemCopy_def)

lemma SafeStrReplace_too_long:
  assumes "NUL \<in> set b" "NUL \<in> set ob" "NUL \<in> set nb" "c_str ob \<noteq> []"
    and big: "unat strSize \<le> length (c_str b)
                + count_occurrences (c_str b) (c_str ob) * length (c_str nb)
                - count_occurrences (c_str b) (c_str ob) * length (c_str ob)"
    and fit: "length (c_str b)
                + count_occurrences (c_str b) (c_str ob) * length (c_str nb)
                - count_occurrences (c_str b) (c_str ob) * length (c_str ob) \<le> unat SIZE_MAX"
  shows "SafeStrReplace (Some b) strSize (Some ob) (Some nb) True st =
           Some (None, Some b,
                 SetError SAFEOPS_ERR_OUT_OF_BOUNDS ''Replacement would overflow buffer'' st)"
proof -
  let ?R = "replace_all (c_str b) (c_str ob) (c_str nb)"
  have R: "length ?R = length (c_str b)
                + count_occurrences (c_str b) (c_str ob) * length (c_str nb)
                - count_occurrences (c_str b) (c_str ob) * length (c_str ob)"
    using replace_all_length [OF assms(4), of "c_str b" "c_str nb"] by linarith
  have "unat (of_nat (length ?R) :: size_t) = length ?R"
    using fit unfolding R [symmetric] by (rule le_unat_uoi)
  then have "strSize \<le> (of_nat (length ?R) :: size_t)"
    using big unfolding R [symmetric] by (simp add: word_le_nat_alt)
  then show ?thesis using assms(1-4) by (intro SafeStrReplace_oob)
qed

text \<open>
  C1 as stated fails, in two ways. For \<open>SafeStrCopy\<close>: a six-byte payload for a
  destination of capacity 4 makes the call fail and leaves the destination untouched,
  but the failure is reported through \<^verbatim>\<open>errno\<close> only; the last error is still
  \<open>SAFEOPS_OK\<close>, not \<open>SAFEOPS_ERR_OUT_OF_BOUNDS\<close>. For \<open>SafeStrReplace\<close>: on a buffer of
  \<open>2^32\<close> characters \<open>a\<close> with capacity \<open>2^32 + 1\<close>, replacing \<open>a\<close> by \<open>2^32\<close>
  characters \<open>b\<close> needs \<open>2^64\<close> characters, more than the capacity and more than
  \<^verbatim>\<open>size_t\<close> holds; the call does not fail with \<open>SAFEOPS_ERR_OUT_OF_BOUNDS\<close>, it has
  no defined result.
\<close>

theorem SafeStrCopy_errno_SafeStrReplace_wrap:
  "SafeStrCopy (Some ''....'') 4 (Some (''hello'' @ [NUL])) st0
     = Some (False, Some ''....'', st0\<lparr>errno := EOVERFLOW\<rparr>)
   \<and> SafeOpsGetLastError (st0\<lparr>errno := EOVERFLOW\<rparr>) = SAFEOPS_OK
   \<and> length (c_str (replicate 4294967296 (CHR ''a'') @ [NUL]))
        + count_occurrences (c_str (replicate 4294967296 (CHR ''a'') @ [NUL]))
            (c_str [CHR ''a'', NUL])
          * length (c_str (replicate 4294967296 (CHR ''b'') @ [NUL]))
        - count_occurrences (c_str (replicate 4294967296 (CHR ''a'') @ [NUL]))
            (c_str [CHR ''a'', NUL])
          * length (c_str [CHR ''a'', NUL])
       = 18446744073709551616
   \<and> unat (4294967297 :: size_t) < 18446744073709551616
   \<and> unat SIZE_MAX < 18446744073709551616
   \<and> SafeStrReplace (Some (replicate 4294967296 (CHR ''a'') @ [NUL])) 4294967297
        (Some [CHR ''a'', NUL]) (Some (replicate 4294967296 (CHR ''b'') @ [NUL])) True
        (st0\<lparr>heap_limit := 8589934592\<rparr>) = None"
proof -
  have c1: "SafeStrCopy (Some ''....'') 4 (Some (''hello'' @ [NUL])) st0
     = Some (False, Some ''....'', st0\<lparr>errno := EOVERFLOW\<rparr>)"
    "SafeOpsGetLastError (st0\<lparr>errno := EOVERFLOW\<rparr>) = SAFEOPS_OK"
    by (simp_all add: SafeStrCopy_def SafeOpsGetLastError_def eval_defs)
  have L: "length (c_str (replicate 4294967296 (CHR ''a'') @ [NUL]))
        + count_occurrences (c_str (replicate 4294967296 (CHR ''a'') @ [NUL]))
            (c_str [CHR ''a'', NUL])
          * length (c_str (replicate 4294967296 (CHR ''b'') @ [NUL]))
        - count_occurrences (c_str (replicate 4294967296 (CHR ''a'') @ [NUL]))
            (c_str [CHR ''a'', NUL])
          * length (c_str [CHR ''a'', NUL])
       = 18446744073709551616"
    by (simp add: wrapped_input_strings count_occurrences_replicate)
  have u: "unat (4294967297 :: size_t) < 18446744073709551616"
    "unat SIZE_MAX < 18446744073709551616"
    by (simp_all add: unat_SIZE_MAX)
  show ?thesis
    by (intro conjI) (fact c1 L u SafeStrReplace_wrapped_input)+
qed

text \<open>
  C1, amended. When the write an operation needs exceeds the capacity passed for the
  destination, the operation fails and the destination is byte for byte as before:
  \<open>SafeStrCopy\<close> (source string of at least \<open>destSize\<close> characters) reports through
  \<^verbatim>\<open>errno\<close> and leaves the last error alone; \<open>SafeStrCat\<close> (terminated destination and
  source whose lengths add up to at least \<open>destSize\<close>, the two objects fitting the
  address space), \<open>SafeMemCopy\<close> (\<open>srcSize > destSize\<close>) and \<open>SafeStrReplace\<close> set the
  last error to \<open>SAFEOPS_ERR_OUT_OF_BOUNDS\<close>. For \<open>SafeStrReplace\<close> the write needed is
  the exact final length \<open>originalLength + count * newLength - count * oldLength\<close>, and
  the statement is made for the calls in which this length is at least \<open>strSize\<close> and
  at most \<^verbatim>\<open>SIZE_MAX\<close>; nothing is stated about a final length that \<^verbatim>\<open>size_t\<close> cannot
  hold.
\<close>

theorem capacity_exceeded:
  "(NUL \<in> set src \<and> unat destSize \<le> length (c_str src) \<longrightarrow>
      SafeStrCopy (Some dest) destSize (Some src) st =
        Some (False, Some dest, st\<lparr>errno := (if destSize = 0 then EINVAL else EOVERFLOW)\<rparr>))
   \<and> (NUL \<in> set dest \<and> NUL \<in> set src \<and> length dest + length src \<le> unat SIZE_MAX
        \<and> unat destSize \<le> length (c_str dest) + length (c_str src) \<longrightarrow>
      (\<exists>msg. SafeStrCat (Some dest) destSize (Some src) st =
         Some (False, Some dest, SetError SAFEOPS_ERR_OUT_OF_BOUNDS msg st)))
   \<and> (srcSize > destSize \<longrightarrow>
      SafeMemCopy mem (Some d) destSize (Some s) srcSize st =
        Some (False, mem,
              SetError SAFEOPS_ERR_OUT_OF_BOUNDS ''Source size exceeds destination buffer'' st))
   \<and> (NUL \<in> set dest \<and> NUL \<in> set oldStr \<and> NUL \<in> set newStr \<and> c_str oldStr \<noteq> []
        \<and> unat destSize \<le> length (c_str dest)
             + count_occurrences (c_str dest) (c_str oldStr) * length (c_str newStr)
             - count_occurrences (c_str dest) (c_str oldStr) * length (c_str oldStr)
        \<and> length (c_str dest)
             + count_occurrences (c_str dest) (c_str oldStr) * length (c_str newStr)
             - count_occurrences (c_str dest) (c_str oldStr) * length (c_str oldStr)
            \<le> unat SIZE_MAX \<longrightarrow>
      SafeStrReplace (Some dest) destSize (Some oldStr) (Some newStr) True st =
        Some (None, Some dest,
              SetError SAFEOPS_ERR_OUT_OF_BOUNDS ''Replacement would overflow buffer'' st))"
  apply (intro conjI impI)
  subgoal by (elim conjE, rule SafeStrCopy_too_long, assumption+)
  subgoal by (elim conjE, rule SafeStrCat_too_long, assumption+)
  subgoal by (rule SafeMemCopy_too_long)
  subgoal by (elim conjE, rule SafeStrReplace_too_long, assumption+)
  done


theorem capacity_exceeded_witness:
  "NUL \<in> set (''hello!'' @ [NUL]) \<and> unat (6 :: size_t) \<le> length (c_str (''hello!'' @ [NUL]))
   \<and> SafeStrCopy (Some (''aXbXc'' @ [NUL])) 6 (Some (''hello!'' @ [NUL])) st0
       = Some (False, Some (''aXbXc'' @ [NUL]), st0\<lparr>errno := EOVERFLOW\<rparr>)
   \<and> NUL \<in> set (''aXbXc'' @ [NUL])
   \<and> length (''aXbXc'' @ [NUL]) + length (''hello!'' @ [NUL]) \<le> unat SIZE_MAX
   \<and> unat (6 :: size_t) \<le> length (c_str (''aXbXc'' @ [NUL])) + length (c_str (''hello!'' @ [NUL]))
   \<and> SafeStrCat (Some (''aXbXc'' @ [NUL])) 6 (Some (''hello!'' @ [NUL])) st0
       = Some (False, Some (''aXbXc'' @ [NUL]),
               SetError SAFEOPS_ERR_OUT_OF_BOUNDS ''Concatenation would overflow buffer'' st0)
   \<and> (9 :: size_t) > 6
   \<and> SafeMemCopy ''12345678'' (Some 0) 6 (Some 4) 9 st0
       = Some (False, ''12345678'',
               SetError SAFEOPS_ERR_OUT_OF_BOUNDS ''Source size exceeds destination buffer'' st0)
   \<and> NUL \<in> set (''X'' @ [NUL]) \<and> NUL \<in> set (''YYY'' @ [NUL]) \<and> c_str (''X'' @ [NUL]) \<noteq> []
   \<and> count_occurrences (c_str (''aXbXc'' @ [NUL])) (c_str (''X'' @ [NUL])) = 2
   \<and> unat (6 :: size_t) \<le> length (c_str (''aXbXc'' @ [NUL])) + 2 * length (c_str (''YYY'' @ [NUL]))
         - 2 * length (c_str (''X'' @ [NUL]))
   \<and> length (c_str (''aXbXc'' @ [NUL])) + 2 * length (c_str (''YYY'' @ [NUL]))
         - 2 * length (c_str (''X'' @ [NUL])) \<le> unat SIZE_MAX
   \<and> SafeStrReplace (Some (''aXbXc'' @ [NUL])) 6 (Some (''X'' @ [NUL])) (Some (''YYY'' @ [NUL]))
        True st0
       = Some (None, Some (''aXbXc'' @ [NUL]),
               SetError SAFEOPS_ERR_OUT_OF_BOUNDS ''Replacement would overflow buffer'' st0)"
proof -
  have n1: "NUL \<in> set (''hello!'' @ [NUL])" and n2: "NUL \<in> set (''aXbXc'' @ [NUL])"
    and n3: "NUL \<in> set (''X'' @ [NUL])" and n4: "NUL \<in> set (''YYY'' @ [NUL])"
    by simp_all
  have ne: "c_str (''X'' @ [NUL]) \<noteq> []" by (simp add: str_of_def)
  have c2: "count_occurrences (c_str (''aXbXc'' @ [NUL])) (c_str (''X'' @ [NUL])) = 2"
    by (simp add: str_of_def count_occurrences.simps)
  have h1: "unat (6 :: size_t) \<le> length (c_str (''hello!'' @ [NUL]))"
    and h2: "length (''aXbXc'' @ [NUL]) + length (''hello!'' @ [NUL]) \<le> unat SIZE_MAX"
    and h3: "unat (6 :: size_t)
         \<le> length (c_str (''aXbXc'' @ [NUL])) + length (c_str (''hello!'' @ [NUL]))"
    and h4: "(9 :: size_t) > 6"
    and h5: "unat (6 :: size_t) \<le> length (c_str (''aXbXc'' @ [NUL]))
         + 2 * length (c_str (''YYY'' @ [NUL])) - 2 * length (c_str (''X'' @ [NUL]))"
    and h6: "length (c_str (''aXbXc'' @ [NUL])) + 2 * length (c_str (''YYY'' @ [NUL]))
         - 2 * length (c_str (''X'' @ [NUL])) \<le> unat SIZE_MAX"
    by (simp_all add: str_of_def unat_SIZE_MAX)
  note t = capacity_exceeded [where src = "''hello!'' @ [NUL]" and destSize = 6
      and dest = "''aXbXc'' @ [NUL]" and st = st0 and srcSize = 9 and mem = "''12345678''"
      and d = 0 and s = 4 and oldStr = "''X'' @ [NUL]" and newStr = "''YYY'' @ [NUL]",
      unfolded c2]
  have r1: "SafeStrCopy (Some (''aXbXc'' @ [NUL])) 6 (Some (''hello!'' @ [NUL])) st0
       = Some (False, Some (''aXbXc'' @ [NUL]), st0\<lparr>errno := EOVERFLOW\<rparr>)"
    using t n1 h1 by simp
  have r2: "SafeStrCat (Some (''aXbXc'' @ [NUL])) 6 (Some (''hello!'' @ [NUL])) st0
       = Some (False, Some (''aXbXc'' @ [NUL]),
               SetError SAFEOPS_ERR_OUT_OF_BOUNDS ''Concatenation would overflow buffer'' st0)"
    by (simp add: SafeStrCat_def eval_defs)
  have r3: "SafeMemCopy ''12345678'' (Some 0) 6 (Some 4) 9 st0
       = Some (False, ''12345678'',
               SetError SAFEOPS_ERR_OUT_OF_BOUNDS ''Source size exceeds destination buffer'' st0)"
    using t h4 by simp
  have r4: "SafeStrReplace (Some (''aXbXc'' @ [NUL])) 6 (Some (''X'' @ [NUL]))
        (Some (''YYY'' @ [NUL])) True st0
       = Some (None, Some (''aXbXc'' @ [NUL]),
               SetError SAFEOPS_ERR_OUT_OF_BOUNDS ''Replacement would overflow buffer'' st0)"
    using t n2 n3 n4 ne h5 h6 by simp
  show ?thesis
    by (intro conjI) (fact n1 n2 n3 n4 ne c2 h1 h2 h3 h4 h5 h6 r1 r2 r3 r4)+
qed

subsection \<open>Error reporting\<close>

lemma g_lastError_SetError: "g_lastError (SetError e m st) = e"
  by (simp add: SetError_def Let_def)

lemma SafeMalloc_None:
  "SafeMalloc sz st = (None, st1) \<Longrightarrow> g_lastError st1 \<noteq> SAFEOPS_OK"
  by (auto simp: SafeMalloc_def c_malloc_def g_lastError_SetError split: if_splits)

lemma SafeMalloc_lastError:
  "SafeMalloc sz st = (Some p, st1) \<Longrightarrow> g_lastError st1 = g_lastError st"
  using SafeMalloc_Some [of sz st p st1] by auto

lemma SafeFree_lastError:
  "SafeFree ptrRef st = Some (q, st1) \<Longrightarrow> g_lastError st1 = g_lastError st"
  by (auto simp: SafeFree_def c_free_def split: option.splits if_splits)

lemma bounded_len_ok:
  "bounded_len z f str m outLen st = Some (Some n, st1) \<Longrightarrow> st1 = st"
  by (auto simp: bounded_len_def split: option.splits if_splits)

lemma bounded_len_err:
  "bounded_len z f str m outLen st = Some (None, st1) \<Longrightarrow> g_lastError st1 \<noteq> SAFEOPS_OK"
  by (auto simp: bounded_len_def g_lastError_SetError split: option.splits if_splits)

lemma SafeMalloc_reports:
  "case SafeMalloc sz st of (p, st1) \<Rightarrow> reports_last_error st (p \<noteq> None) st1"
  by (auto simp: reports_last_error_def dest: SafeMalloc_None SafeMalloc_lastError)

lemma SafeMallocUninitialized_reports:
  "case SafeMallocUninitialized sz st of (p, st1) \<Rightarrow> reports_last_error st (p \<noteq> None) st1"
  by (auto simp: reports_last_error_def SafeMallocUninitialized_def c_malloc_def
      g_lastError_SetError split: if_splits)

lemma SafeMemCopy_reports:
  "case SafeMemCopy mem dest destSize src srcSize st of
     None \<Rightarrow> True
   | Some (ok, mem1, st1) \<Rightarrow> reports_last_error st ok st1"
  by (auto simp: reports_last_error_def SafeMemCopy_def g_lastError_SetError Let_def
      split: option.splits if_splits)

lemma SafeStrLen_reports:
  "case SafeStrLen str maxLen outLen st of
     None \<Rightarrow> True
   | Some (len, st1) \<Rightarrow> reports_last_error st (len \<noteq> None) st1"
  by (auto simp: reports_last_error_def SafeStrLen_def split: option.splits
      dest: bounded_len_ok bounded_len_err)

lemma SafeWStrLen_reports:
  "case SafeWStrLen wstr maxLen outLen st of
     None \<Rightarrow> True
   | Some (len, st1) \<Rightarrow> reports_last_error st (len \<noteq> None) st1"
  by (auto simp: reports_last_error_def SafeWStrLen_def split: option.splits
      dest: bounded_len_ok bounded_len_err)



lemma SafeStrCat_reports:
  "case SafeStrCat dest destSize src st of
     None \<Rightarrow> True
   | Some (ok, dest1, st1) \<Rightarrow> reports_last_error st ok st1"
  by (auto simp: reports_last_error_def SafeStrCat_def SafeStrLen_def g_lastError_SetError
      split: option.splits if_splits dest: bounded_len_ok bounded_len_err)

lemma SafeWStrNCopy_reports:
  "case SafeWStrNCopy wdest destSize wsrc count st of
     None \<Rightarrow> True
   | Some (ok, dest1, st1) \<Rightarrow> reports_last_error st ok st1"
  by (auto simp: reports_last_error_def SafeWStrNCopy_def SafeWStrLen_def g_lastError_SetError
      Let_def split: option.splits if_splits dest: bounded_len_ok bounded_len_err)

lemma SafeWStrNCat_reports:
  "case SafeWStrNCat wdest destSize wsrc count st of
     None \<Rightarrow> True
   | Some (ok, dest1, st1) \<Rightarrow> reports_last_error st ok st1"
  by (auto simp: reports_last_error_def SafeWStrNCat_def SafeWStrLen_def g_lastError_SetError
      Let_def split: option.splits if_splits dest: bounded_len_ok bounded_len_err)

lemma SafeStrFind_reports:
  "case SafeStrFind haystack haystackLen needle outPos st of
     None \<Rightarrow> True
   | Some (pos, st1) \<Rightarrow> reports_last_error st (pos \<noteq> None) st1"
  by (auto simp: reports_last_error_def SafeStrFind_def g_lastError_SetError
      split: option.splits if_splits)

lemma SafeStrReplace_reports:
  "case SafeStrReplace str strSize oldStr newStr outLen st of
     None \<Rightarrow> True
   | Some (len, str1, st1) \<Rightarrow> reports_last_error st (len \<noteq> None) st1"
  by (auto simp: reports_last_error_def SafeStrReplace_def g_lastError_SetError Let_def
      split: option.splits if_splits prod.splits
      dest!: SafeMalloc_None SafeMalloc_lastError SafeFree_lastError)

lemma SafeFOpen_reports:
  "case SafeFOpen sys filePath mode opts st of (fp, st1) \<Rightarrow>
     reports_last_error st (fp \<noteq> None) st1"
  by (auto simp: reports_last_error_def SafeFOpen_def g_lastError_SetError Let_def
      split: option.splits if_splits prod.splits dest!: open_close open_fails)

lemma SafeFOpen_win32_reports:
  "case SafeFOpen_win32 sys filePath mode opts st of (fp, st1) \<Rightarrow>
     reports_last_error st (fp \<noteq> None) st1"
  by (auto simp: reports_last_error_def SafeFOpen_win32_def g_lastError_SetError Let_def
      split: option.splits if_splits prod.splits dest!: fopen_close fopen_fails)

lemma SafeFreeTyped_reports:
  "case SafeFreeTyped ptrRef sz st of
     None \<Rightarrow> True
   | Some (ok, ptr1, st1) \<Rightarrow> reports_errno st ok st1"
  by (auto simp: reports_errno_def SafeFreeTyped_def c_memset_block_def c_free_def
      split: option.splits if_splits)

lemma SafeStrCopy_reports:
  "case SafeStrCopy dest destSize src st of
     None \<Rightarrow> True
   | Some (ok, dest1, st1) \<Rightarrow> reports_errno st ok st1"
  by (auto simp: reports_errno_def SafeStrCopy_def split: option.splits if_splits)

lemma SafeWriteInt_reports:
  "case SafeWriteInt array arraySize index v st of
     None \<Rightarrow> True
   | Some (ok, array1, st1) \<Rightarrow> reports_errno st ok st1"
  by (auto simp: reports_errno_def SafeWriteInt_def split: option.splits if_splits)

lemma SafeReadInt_reports:
  "case SafeReadInt array arraySize index outValue st of
     None \<Rightarrow> True
   | Some (v, st1) \<Rightarrow> reports_errno st (v \<noteq> None) st1"
  by (auto simp: reports_errno_def SafeReadInt_def split: option.splits if_splits)

lemma SafePointerOffset_reports:
  "case SafePointerOffset base baseSize offset st of (ptr, st1) \<Rightarrow>
     reports_errno st (ptr \<noteq> 0) st1"
proof (cases "base = 0 \<or> offset > baseSize \<or> base + offset < base")
  case True
  then show ?thesis by (auto simp: reports_errno_def SafePointerOffset_def)
next
  case False
  then have "base \<le> base + offset" "base \<noteq> 0" by auto
  then have "base + offset \<noteq> 0" by (metis word_le_0_iff)
  with False show ?thesis by (auto simp: reports_errno_def SafePointerOffset_def)
qed

lemma SafeAddInt_reports:
  "case SafeAddInt a b result st of (ok, v, st1) \<Rightarrow> reports_errno st ok st1"
  by (auto simp: reports_errno_def SafeAddInt_def split: if_splits)

lemma SafeCastLongLongToInt_reports:
  "case SafeCastLongLongToInt val out st of (v, st1) \<Rightarrow> reports_errno st (v \<noteq> None) st1"
  by (auto simp: reports_errno_def SafeCastLongLongToInt_def split: if_splits)

lemma SafePrintf_reports:
  "case SafePrintf format ret e st of (n, st1) \<Rightarrow>
     g_lastError st1 = g_lastError st
     \<and> (if format = None then n = - 1 \<and> errno st1 = EINVAL else n = ret \<and> errno st1 = e)"
  by (simp add: SafePrintf_def c_vprintf_def)

text \<open>
  C2 as stated fails: \<open>SafeAddInt\<close> on \<^verbatim>\<open>INT_MAX\<close> and 1 fails, and the last-error cell
  is not written. It still reads \<open>SAFEOPS_OK\<close> when no error was recorded before, and
  still holds the previous code when one was.
\<close>

theorem SafeAddInt_keeps_last_error:
  "SafeAddInt 0x7FFFFFFF 1 True st0 = (False, Some 0x80000000, st0\<lparr>errno := EOVERFLOW\<rparr>)
   \<and> SafeOpsGetLastError (st0\<lparr>errno := EOVERFLOW\<rparr>) = SAFEOPS_OK
   \<and> SafeAddInt 0x7FFFFFFF 1 True (st0\<lparr>g_lastError := SAFEOPS_ERR_FILE_ACCESS\<rparr>)
       = (False, Some 0x80000000,
          st0\<lparr>g_lastError := SAFEOPS_ERR_FILE_ACCESS, errno := EOVERFLOW\<rparr>)
   \<and> SafeOpsGetLastError (st0\<lparr>g_lastError := SAFEOPS_ERR_FILE_ACCESS, errno := EOVERFLOW\<rparr>)
       = SAFEOPS_ERR_FILE_ACCESS"
  by (simp add: SafeAddInt_def SafeOpsGetLastError_def st0_def)

text \<open>
  C2, amended. Whenever a call has a defined result: the operations that report through
  \<open>SetError\<close> (\<open>SafeMalloc\<close>, \<open>SafeMallocUninitialized\<close>, \<open>SafeMemCopy\<close>, \<open>SafeStrLen\<close>,
  \<open>SafeWStrLen\<close>, \<open>SafeStrCat\<close>, \<open>SafeWStrNCopy\<close>, \<open>SafeWStrNCat\<close>, \<open>SafeStrFind\<close>,
  \<open>SafeStrReplace\<close>, \<open>SafeFOpen\<close> in both branches) leave the last-error cell untouched on success and
  leave an error code other than \<open>SAFEOPS_OK\<close> in it on failure; the operations that
  report through \<^verbatim>\<open>errno\<close> (\<open>SafeFreeTyped\<close>, \<open>SafeStrCopy\<close>, \<open>SafeWriteInt\<close>,
  \<open>SafeReadInt\<close>, \<open>SafePointerOffset\<close>, \<open>SafeAddInt\<close>, \<open>SafeCastLongLongToInt\<close>)
  never touch the last-error cell, and on failure set \<^verbatim>\<open>errno\<close> to \<open>EINVAL\<close> or
  \<open>EOVERFLOW\<close>. \<open>SafePrintf\<close> never touches the last-error cell either: a \<^verbatim>\<open>NULL\<close>
  format gives \<open>-1\<close> with \<^verbatim>\<open>errno\<close> set to \<open>EINVAL\<close>, and any other call returns the
  result of \<^verbatim>\<open>vprintf\<close>, so that a failure of \<^verbatim>\<open>vprintf\<close> is reported by its negative
  result and by the \<^verbatim>\<open>errno\<close> value the C library left, whatever it is.
\<close>

theorem error_reporting:
  "(case SafeMalloc sz st of (p, st1) \<Rightarrow> reports_last_error st (p \<noteq> None) st1)
   \<and> (case SafeMallocUninitialized sz st of (p, st1) \<Rightarrow>
         reports_last_error st (p \<noteq> None) st1)
   \<and> (case SafeMemCopy mem destp destSize srcp srcSize st of
         None \<Rightarrow> True
       | Some (ok, mem1, st1) \<Rightarrow> reports_last_error st ok st1)
   \<and> (case SafeStrLen str maxLen outLen st of
         None \<Rightarrow> True
       | Some (len, st1) \<Rightarrow> reports_last_error st (len \<noteq> None) st1)
   \<and> (case SafeWStrLen wstr maxLen outLen st of
         None \<Rightarrow> True
       | Some (len, st1) \<Rightarrow> reports_last_error st (len \<noteq> None) st1)
   \<and> (case SafeStrCat dest destSize src st of
         None \<Rightarrow> True
       | Some (ok, dest1, st1) \<Rightarrow> reports_last_error st ok st1)
   \<and> (case SafeWStrNCopy wdest destSize wsrc count st of
         None \<Rightarrow> True
       | Some (ok, dest1, st1) \<Rightarrow> reports_last_error st ok st1)
   \<and> (case SafeWStrNCat wdest destSize wsrc count st of
         None \<Rightarrow> True
       | Some (ok, dest1, st1) \<Rightarrow> reports_last_error st ok st1)
   \<and> (case SafeStrFind str maxLen src outLen st of
         None \<Rightarrow> True
       | Some (pos, st1) \<Rightarrow> reports_last_error st (pos \<noteq> None) st1)
   \<and> (case SafeStrReplace str destSize oldStr newStr outLen st of
         None \<Rightarrow> True
       | Some (len, str1, st1) \<Rightarrow> reports_last_error st (len \<noteq> None) st1)
   \<and> (case SafeFOpen sys filePath mode opts st of (fp, st1) \<Rightarrow>
         reports_last_error st (fp \<noteq> None) st1)
   \<and> (case SafeFOpen_win32 sys filePath mode opts st of (fp, st1) \<Rightarrow>
         reports_last_error st (fp \<noteq> None) st1)
   \<and> (case SafeFreeTyped ptrRef sz st of
         None \<Rightarrow> True
       | Some (ok, ptr1, st1) \<Rightarrow> reports_errno st ok st1)
   \<and> (case SafeStrCopy dest destSize src st of
         None \<Rightarrow> True
       | Some (ok, dest1, st1) \<Rightarrow> reports_errno st ok st1)
   \<and> (case SafeWriteInt array arraySize index v st of
         None \<Rightarrow> True
       | Some (ok, array1, st1) \<Rightarrow> reports_errno st ok st1)
   \<and> (case SafeReadInt array arraySize index outLen st of
         None \<Rightarrow> True
       | Some (v1, st1) \<Rightarrow> reports_errno st (v1 \<noteq> None) st1)
   \<and> (case SafePointerOffset base baseSize offset st of (ptr, st1) \<Rightarrow>
         reports_errno st (ptr \<noteq> 0) st1)
   \<and> (case SafeAddInt a b result st of (ok, v1, st1) \<Rightarrow> reports_errno st ok st1)
   \<and> (case SafeCastLongLongToInt val result st of (v1, st1) \<Rightarrow>
         reports_errno st (v1 \<noteq> None) st1)
   \<and> (case SafePrintf format ret e st of (n, st1) \<Rightarrow>
         g_lastError st1 = g_lastError st
         \<and> (if format = None then n = - 1 \<and> errno st1 = EINVAL
            else n = ret \<and> errno st1 = e))"
  by (intro conjI)
    (rule SafeMalloc_reports SafeMallocUninitialized_reports SafeMemCopy_reports
      SafeStrLen_reports SafeWStrLen_reports SafeStrCat_reports SafeWStrNCopy_reports
      SafeWStrNCat_reports SafeStrFind_reports SafeStrReplace_reports SafeFOpen_reports
      SafeFOpen_win32_reports
      SafeFreeTyped_reports SafeStrCopy_reports SafeWriteInt_reports SafeReadInt_reports
      SafePointerOffset_reports SafeAddInt_reports SafeCastLongLongToInt_reports
      SafePrintf_reports)+

theorem error_reporting_witness:
  "SafeMalloc 0 st0 = (None, st0\<lparr>g_lastError := SAFEOPS_ERR_INVALID_PARAM\<rparr>)
   \<and> reports_last_error st0 False (st0\<lparr>g_lastError := SAFEOPS_ERR_INVALID_PARAM\<rparr>)
   \<and> SafeStrLen (Some (''abc'' @ [NUL])) 8 True st0 = Some (Some 3, st0)
   \<and> reports_last_error st0 True st0
   \<and> SafeAddInt 0x7FFFFFFF 1 True st0 = (False, Some 0x80000000, st0\<lparr>errno := EOVERFLOW\<rparr>)
   \<and> reports_errno st0 False (st0\<lparr>errno := EOVERFLOW\<rparr>)
   \<and> SafeCastLongLongToInt 42 True st0 = (Some 42, st0)
   \<and> reports_errno st0 True st0
   \<and> SafePrintf (Some ''%d'') (- 1) E_OTHER st0 = (- 1, st0\<lparr>errno := E_OTHER\<rparr>)
   \<and> g_lastError (st0\<lparr>errno := E_OTHER\<rparr>) = g_lastError st0"
proof -
  have m: "SafeMalloc 0 st0 = (None, st0\<lparr>g_lastError := SAFEOPS_ERR_INVALID_PARAM\<rparr>)"
    by (simp add: SafeMalloc_def SetError_def st0_def)
  have l: "SafeStrLen (Some (''abc'' @ [NUL])) 8 True st0 = Some (Some 3, st0)"
    by (simp add: eval_defs)
  have a: "SafeAddInt 0x7FFFFFFF 1 True st0
             = (False, Some 0x80000000, st0\<lparr>errno := EOVERFLOW\<rparr>)"
    by (simp add: SafeAddInt_def)
  have c: "SafeCastLongLongToInt 42 True st0 = (Some 42, st0)"
    by (simp add: SafeCastLongLongToInt_def)
  have p: "SafePrintf (Some ''%d'') (- 1) E_OTHER st0 = (- 1, st0\<lparr>errno := E_OTHER\<rparr>)"
    by (simp add: SafePrintf_def c_vprintf_def)
  note t = error_reporting [where sz = 0 and st = st0 and str = "Some (''abc'' @ [NUL])"
      and maxLen = 8 and outLen = True and a = "0x7FFFFFFF" and b = 1 and result = True
      and val = 42 and format = "Some ''%d''" and ret = "- 1" and e = E_OTHER]
  have r1: "reports_last_error st0 False (st0\<lparr>g_lastError := SAFEOPS_ERR_INVALID_PARAM\<rparr>)"
    using t [THEN conjunct1] m by simp
  have r2: "reports_last_error st0 True st0"
    using t [THEN conjunct2, THEN conjunct2, THEN conjunct2, THEN conjunct1] l by simp
  have r3: "reports_errno st0 False (st0\<lparr>errno := EOVERFLOW\<rparr>)"
    using t a by simp
  have r4: "reports_errno st0 True st0"
    using t c by simp
  have r5: "g_lastError (st0\<lparr>errno := E_OTHER\<rparr>) = g_lastError st0"
    using t p by simp
  show ?thesis
    by (intro conjI) (fact m l a c p r1 r2 r3 r4 r5)+
qed

end
